theory Spec2Isabelle
  imports Complex_Main "HOL-Library.Sublist"
begin

section \<open>JavaScript values used by the components\<close>

text \<open>
  The components of the PDF viewer (React function components in TypeScript) are
  modelled by their state and their event handlers: a handler takes the state before
  and returns the state after. The libraries they call (pdf.js, Tesseract, fetch, the
  browser's storage) are parameters or parts of the state.

  Strings are \<^typ>\<open>string\<close>; page numbers and the other integral JavaScript numbers are
  \<^typ>\<open>int\<close>; the zoom scale and scroll offsets, which take fractional values, are
  \<^typ>\<open>real\<close> (rounding of IEEE doubles is not modelled). A handler that awaits is
  modelled as running to its end without interleaving.
\<close>

subsection \<open>Numbers in template literals\<close>

definition digit_char :: "nat \<Rightarrow> char" where
  "digit_char d = ''0123456789'' ! (d mod 10)"

fun show_nat :: "nat \<Rightarrow> string" where
  "show_nat n = (if n < 10 then [digit_char n] else show_nat (n div 10) @ [digit_char (n mod 10)])"

declare show_nat.simps [simp del]

text \<open>\<^verbatim>\<open>`${n}`\<close> for an integral number \<open>n\<close>.\<close>

definition show_int :: "int \<Rightarrow> string" where
  "show_int i = (if i < 0 then CHR ''-'' # show_nat (nat (- i)) else show_nat (nat i))"

subsection \<open>String.prototype.trim and String.prototype.includes\<close>

text \<open>
  The white space and line terminators that \<open>trim\<close> strips, as far as they lie in the
  range of \<^typ>\<open>char\<close>: TAB, LF, VT, FF, CR, SPACE and NBSP.
\<close>

definition isSpace :: "char \<Rightarrow> bool" where
  "isSpace c = (c = CHR 0x09 \<or> c = CHR 0x0A \<or> c = CHR 0x0B \<or> c = CHR 0x0C \<or> c = CHR 0x0D
                \<or> c = CHR 0x20 \<or> c = CHR 0xA0)"

definition trim :: "string \<Rightarrow> string" where
  "trim s = rev (dropWhile isSpace (rev (dropWhile isSpace s)))"

fun str_includes :: "string \<Rightarrow> string \<Rightarrow> bool" where
  "str_includes [] sub = (sub = [])"
| "str_includes (c # cs) sub = (prefix sub (c # cs) \<or> str_includes cs sub)"

text \<open>\<open>Array.prototype.join\<close> on an array of strings.\<close>

fun join :: "string \<Rightarrow> string list \<Rightarrow> string" where
  "join sep [] = []"
| "join sep [x] = x"
| "join sep (x # y # ys) = x @ sep @ join sep (y # ys)"

subsection \<open>parseInt\<close>

text \<open>
  \<open>parseInt(s)\<close> with no radix: leading white space is skipped, a sign is read, a
  \<open>0x\<close> prefix selects radix 16, and the longest run of digits is converted; no digit
  at all gives \<open>NaN\<close>, here \<^const>\<open>None\<close>.
\<close>

definition digit_of :: "nat \<Rightarrow> char \<Rightarrow> nat option" where
  "digit_of radix c =
     (let n = (of_char c :: nat);
          d = (if 48 \<le> n \<and> n \<le> 57 then Some (n - 48)
               else if 97 \<le> n \<and> n \<le> 122 then Some (n - 87)
               else if 65 \<le> n \<and> n \<le> 90 then Some (n - 55)
               else None)
      in case d of None \<Rightarrow> None | Some v \<Rightarrow> if v < radix then Some v else None)"

definition parseInt :: "string \<Rightarrow> int option" where
  "parseInt s =
     (let s1 = dropWhile isSpace s;
          neg = (take 1 s1 = ''-'');
          s2 = (if take 1 s1 = ''-'' \<or> take 1 s1 = ''+'' then drop 1 s1 else s1);
          hex = (take 2 s2 = ''0x'' \<or> take 2 s2 = ''0X'');
          radix = (if hex then 16 else 10);
          s3 = (if hex then drop 2 s2 else s2);
          ds = List.map_filter (digit_of radix) (takeWhile (\<lambda>c. digit_of radix c \<noteq> None) s3)
      in if ds = [] then None
         else Some ((if neg then - 1 else 1) * int (foldl (\<lambda>a d. a * radix + d) 0 ds)))"

section \<open>Toasts\<close>

text \<open>
  The toaster is a log of the calls made to it, oldest first. A loading toast created
  without an id gets the id \<open>Id_auto k\<close>, \<open>k\<close> the length of the log at that moment.
\<close>

datatype toast_id = Id_named string | Id_auto nat

datatype toast =
    Toast_error string
  | Toast_success string
  | Toast_warning string
  | Toast_loading toast_id string
  | Toast_dismiss toast_id

definition is_error :: "toast \<Rightarrow> bool" where
  "is_error t = (case t of Toast_error m \<Rightarrow> True | _ \<Rightarrow> False)"

section \<open>PDFViewer, PDFControls and PDFPageNavigator\<close>

text \<open>
  The state of the \<open>PDFViewer\<close> component (the second module of
  \<open>src/components/FileUpload.tsx\<close>, lines 75 to 86), together with the scroll offset
  of its container (\<open>containerRef.current\<close>) and the toaster.
\<close>

record viewer =
  numPages :: int
  currentPage :: int
  scale :: real
  splitPdfPages :: "int list"
  isSplit :: bool
  ocrText :: string
  showChat :: bool
  isProcessingOCR :: bool
  scrollTop :: real
  toasts :: "toast list"

definition toast :: "toast \<Rightarrow> viewer \<Rightarrow> viewer" where
  "toast t v = v\<lparr>toasts := toasts v @ [t]\<rparr>"

text \<open>\<open>Array.from({ length: n }, (_, i) => f(i))\<close>: a length below 1 gives the empty array.\<close>

definition array_from :: "int \<Rightarrow> (int \<Rightarrow> 'a) \<Rightarrow> 'a list" where
  "array_from n f = map (\<lambda>i. f (int i)) [0..<nat n]"

text \<open>
  The active page sequence, line 101:
  \<open>const pages = isSplit ? splitPdfPages : Array.from({ length: numPages }, (_, i) => i + 1)\<close>.
\<close>

definition pages :: "viewer \<Rightarrow> int list" where
  "pages v = (if isSplit v then splitPdfPages v else array_from (numPages v) (\<lambda>i. i + 1))"

text \<open>\<open>handleSplit\<close> of \<open>PDFViewer\<close>, lines 168 to 174.\<close>

definition handleSplit :: "int \<Rightarrow> int \<Rightarrow> viewer \<Rightarrow> viewer" where
  "handleSplit start end' v =
     toast (Toast_success (''PDF split from page '' @ show_int start @ '' to '' @ show_int end'))
       (v\<lparr>splitPdfPages := array_from (end' - start + 1) (\<lambda>i. start + i),
          isSplit := True,
          currentPage := start\<rparr>)"

text \<open>
  The state of \<open>PDFControls\<close> and its \<open>handleSplit\<close> (\<open>src/unnamed/part_001\<close>, lines
  27 to 36), which calls \<open>onSplit\<close>, the viewer's \<open>handleSplit\<close>. The numbers typed
  into the two inputs are taken to be integers.
\<close>

record controls =
  startPage :: int
  endPage :: int
  showSplitControls :: bool

definition controls_handleSplit :: "controls \<times> viewer \<Rightarrow> controls \<times> viewer" where
  "controls_handleSplit cv =
     (let c = fst cv; v = snd cv in
      if startPage c \<le> endPage c \<and> startPage c \<ge> 1 \<and> endPage c \<le> numPages v
      then (c\<lparr>showSplitControls := False\<rparr>, handleSplit (startPage c) (endPage c) v)
      else (c, v))"

text \<open>
  \<open>handleJumpToPage\<close> of \<open>PDFViewer\<close>, lines 176 to 187. In split mode the target is
  \<open>splitPdfPages[pageNum - 1]\<close>; outside the array that is \<open>undefined\<close> (the result
  \<^const>\<open>None\<close> here), which the navigator's check of \<open>pageNum\<close> excludes.
\<close>

definition handleJumpToPage :: "int \<Rightarrow> viewer \<Rightarrow> viewer option" where
  "handleJumpToPage pageNum v =
     (let targetPage =
            (if isSplit v
             then (if 1 \<le> pageNum \<and> pageNum \<le> int (length (splitPdfPages v))
                   then Some (splitPdfPages v ! nat (pageNum - 1)) else None)
             else Some pageNum)
      in case targetPage of
           None \<Rightarrow> None
         | Some t \<Rightarrow>
             (let pageHeight = 842 * scale v;
                  scrollPosition = (real_of_int t - 1) * pageHeight
              in Some (v\<lparr>scrollTop := scrollPosition, currentPage := t\<rparr>)))"

text \<open>
  The state of \<open>PDFPageNavigator\<close> and its \<open>handleJumpToPage\<close>
  (\<open>src/components/pdf/PDFPageNavigator.tsx\<close>, lines 15 to 29), which calls
  \<open>onJumpToPage\<close>, the viewer's \<open>handleJumpToPage\<close>. The property \<open>totalPages\<close> is
  \<open>isSplit ? splitPdfPages.length : numPages\<close> (the viewer, line 280).
\<close>

record navigator =
  isDialogOpen :: bool
  jumpToPage :: string

definition totalPages :: "viewer \<Rightarrow> int" where
  "totalPages v = (if isSplit v then int (length (splitPdfPages v)) else numPages v)"

definition navigator_handleJumpToPage :: "navigator \<times> viewer \<Rightarrow> (navigator \<times> viewer) option" where
  "navigator_handleJumpToPage nv =
     (let n = fst nv; v = snd nv;
          rejected = Some (n, toast (Toast_error (''Please enter a valid page number between 1 and ''
                                        @ show_int (totalPages v))) v)
      in case parseInt (jumpToPage n) of
           None \<Rightarrow> rejected
         | Some pageNum \<Rightarrow>
             if pageNum < 1 \<or> pageNum > totalPages v then rejected
             else (case handleJumpToPage pageNum v of
                     None \<Rightarrow> None
                   | Some v' \<Rightarrow>
                       Some (n\<lparr>isDialogOpen := False, jumpToPage := ''''\<rparr>,
                             toast (Toast_success (''Jumped to page '' @ show_int pageNum)) v')))"

section \<open>Text extraction: performOCR\<close>

text \<open>The module \<open>src/unnamed/part_003\<close>, imported by the viewer as \<open>@/utils/pdfOCR\<close>.\<close>

text \<open>A thrown JavaScript error, by its message.\<close>

datatype error = Error string

text \<open>
  What pdf.js gives for one page: the text-content stream (the \<open>str\<close> of each item,
  or the failure of \<open>getTextContent\<close>), whether a fresh canvas yields a 2d context,
  and the data URL of the rendered page (or the failure of rendering).
\<close>

record page =
  textContent :: "error + string list"
  hasContext :: bool
  rendered :: "error + string"

record pdf =
  doc_numPages :: int
  getPage :: "int \<Rightarrow> error + page"

text \<open>
  The collaborators of \<open>performOCR\<close> for one file: the outcome of loading the document
  and the recognition engine (\<open>Tesseract.recognize(url, 'eng').data.text\<close>).
\<close>

record ocr_env =
  getDocument :: "error + pdf"
  recognize :: "string \<Rightarrow> error + string"

text \<open>The calls made to the collaborators, oldest first.\<close>

datatype call =
    Call_getTextContent int
  | Call_extractImages int
  | Call_recognize int string

text \<open>\<open>extractImagesFromPage\<close>, lines 14 to 39.\<close>

definition extractImagesFromPage :: "pdf \<Rightarrow> int \<Rightarrow> error + string list" where
  "extractImagesFromPage p pageNumber =
     (case getPage p pageNumber of
        Inl e \<Rightarrow> Inl e
      | Inr pg \<Rightarrow>
          if \<not> hasContext pg then Inr []
          else (case rendered pg of Inl e \<Rightarrow> Inl e | Inr imageDataUrl \<Rightarrow> Inr [imageDataUrl]))"

text \<open>The variables of the loop of \<open>performOCR\<close>, the toaster and the call log.\<close>

record ocr_run =
  fullText :: string
  imageBasedPagesCount :: nat
  ocr_toasts :: "toast list"
  calls :: "call list"

definition newline :: char where
  "newline = CHR 0x0A"

text \<open>The fast path, lines 66 to 68: the items' strings joined by single spaces.\<close>

definition native_text :: "pdf \<Rightarrow> int \<Rightarrow> error + string" where
  "native_text p pageNum =
     (case getPage p pageNum of
        Inl e \<Rightarrow> Inl e
      | Inr pg \<Rightarrow> (case textContent pg of Inl e \<Rightarrow> Inl e | Inr items \<Rightarrow> Inr (join '' '' items)))"

text \<open>The inner loop over the images of a page, lines 82 to 99.\<close>

fun recognize_all ::
  "ocr_env \<Rightarrow> int \<Rightarrow> string list \<Rightarrow> string \<Rightarrow> call list \<Rightarrow> (error + string) \<times> call list" where
  "recognize_all env pageNum [] pageText cs = (Inr pageText, cs)"
| "recognize_all env pageNum (imageUrl # images) pageText cs =
     (case recognize env imageUrl of
        Inl e \<Rightarrow> (Inl e, cs @ [Call_recognize pageNum imageUrl])
      | Inr t \<Rightarrow>
          recognize_all env pageNum images (pageText @ '' '' @ t)
            (cs @ [Call_recognize pageNum imageUrl]))"

definition ocr_toast_id :: "int \<Rightarrow> toast_id" where
  "ocr_toast_id pageNum = Id_named (''ocr-page-'' @ show_int pageNum)"

text \<open>\<^verbatim>\<open>`Page ${pageNum}:\n${pageText.trim()}\n\n`\<close>, line 103.\<close>

definition page_section :: "int \<Rightarrow> string \<Rightarrow> string" where
  "page_section pageNum pageText =
     ''Page '' @ show_int pageNum @ '':'' @ [newline] @ trim pageText @ [newline, newline]"

text \<open>
  One round of the loop for a page in range, lines 66 to 103. The first component is
  the error thrown, if any; the run is returned as it stands at that moment.
\<close>

definition process_page :: "ocr_env \<Rightarrow> pdf \<Rightarrow> int \<Rightarrow> ocr_run \<Rightarrow> error option \<times> ocr_run" where
  "process_page env p pageNum r =
     (let r1 = r\<lparr>calls := calls r @ [Call_getTextContent pageNum]\<rparr> in
      case native_text p pageNum of
        Inl e \<Rightarrow> (Some e, r1)
      | Inr pageText \<Rightarrow>
          if length (trim pageText) < 50 then
            (let r2 = r1\<lparr>ocr_toasts := ocr_toasts r1 @
                            [Toast_loading (ocr_toast_id pageNum)
                               (''Page '' @ show_int pageNum
                                @ '' appears to be image-based, using advanced OCR...'')],
                          imageBasedPagesCount := imageBasedPagesCount r1 + 1,
                          calls := calls r1 @ [Call_extractImages pageNum]\<rparr>
             in case extractImagesFromPage p pageNum of
                  Inl e \<Rightarrow> (Some e, r2)
                | Inr images \<Rightarrow>
                    (case recognize_all env pageNum images pageText (calls r2) of
                       (Inl e, cs) \<Rightarrow> (Some e, r2\<lparr>calls := cs\<rparr>)
                     | (Inr pageText', cs) \<Rightarrow>
                         (None, r2\<lparr>calls := cs,
                                   ocr_toasts := ocr_toasts r2 @ [Toast_dismiss (ocr_toast_id pageNum)],
                                   fullText := fullText r2 @ page_section pageNum pageText'\<rparr>)))
          else (None, r1\<lparr>fullText := fullText r1 @ page_section pageNum pageText\<rparr>))"

text \<open>The loop over the requested pages, lines 62 to 104.\<close>

fun process_pages :: "ocr_env \<Rightarrow> pdf \<Rightarrow> int list \<Rightarrow> ocr_run \<Rightarrow> error option \<times> ocr_run" where
  "process_pages env p [] r = (None, r)"
| "process_pages env p (pageNum # rest) r =
     (if pageNum > doc_numPages p \<or> pageNum < 1 then process_pages env p rest r
      else (case process_page env p pageNum r of
              (Some e, r') \<Rightarrow> (Some e, r')
            | (None, r') \<Rightarrow> process_pages env p rest r'))"

text \<open>
  \<open>performOCR\<close>, lines 47 to 121: the text returned or the error rethrown, the toaster
  afterwards and the calls made.
\<close>

definition performOCR ::
  "ocr_env \<Rightarrow> int list \<Rightarrow> toast list \<Rightarrow> (error + string) \<times> toast list \<times> call list" where
  "performOCR env pageNumbers ts =
     (case getDocument env of
        Inl e \<Rightarrow> (Inl e, ts @ [Toast_error ''Failed to extract text from PDF''], [])
      | Inr p \<Rightarrow>
          (case process_pages env p pageNumbers
                  \<lparr>fullText = [], imageBasedPagesCount = 0, ocr_toasts = ts, calls = []\<rparr> of
             (Some e, r) \<Rightarrow>
               (Inl e, ocr_toasts r @ [Toast_error ''Failed to extract text from PDF''], calls r)
           | (None, r) \<Rightarrow>
               (Inr (if fullText r = [] then ''No text found in the PDF.'' else fullText r),
                ocr_toasts r @
                  (if imageBasedPagesCount r > 0
                   then [Toast_success (''Advanced OCR completed on '' @ show_nat (imageBasedPagesCount r)
                                        @ '' image-based pages'')]
                   else []),
                calls r)))"

text \<open>\<open>handlePerformOCR\<close> of \<open>PDFViewer\<close>, lines 189 to 213.\<close>

definition handlePerformOCR :: "ocr_env \<Rightarrow> viewer \<Rightarrow> viewer" where
  "handlePerformOCR env v =
     (if \<not> isSplit v \<or> length (splitPdfPages v) = 0
      then toast (Toast_error ''Please split the PDF first before performing OCR'') v
      else
        (let v1 = v\<lparr>isProcessingOCR := True\<rparr>;
             loadingToastId = Id_auto (length (toasts v1));
             v2 = toast (Toast_loading loadingToastId ''Extracting text from PDF pages...'') v1
         in case performOCR env (splitPdfPages v2) (toasts v2) of
              (Inr text, ts, cs) \<Rightarrow>
                v2\<lparr>ocrText := text,
                   showChat := True,
                   toasts := ts @ [Toast_dismiss loadingToastId,
                                   Toast_success ''OCR completed! You can now ask questions about the content.''],
                   isProcessingOCR := False\<rparr>
            | (Inl e, ts, cs) \<Rightarrow>
                v2\<lparr>toasts := ts @ [Toast_dismiss loadingToastId,
                                   Toast_error ''Failed to extract text from PDF. Please try again.''],
                   isProcessingOCR := False\<rparr>))"

text \<open>
  The text a page contributes, without the logs: the native text when its trimmed
  length reaches 50, else the native text followed by a space and the recognised text
  of each image of the page.
\<close>

fun ocr_text :: "ocr_env \<Rightarrow> string list \<Rightarrow> string \<Rightarrow> error + string" where
  "ocr_text env [] pageText = Inr pageText"
| "ocr_text env (imageUrl # images) pageText =
     (case recognize env imageUrl of
        Inl e \<Rightarrow> Inl e
      | Inr t \<Rightarrow> ocr_text env images (pageText @ '' '' @ t))"

definition page_text :: "ocr_env \<Rightarrow> pdf \<Rightarrow> int \<Rightarrow> error + string" where
  "page_text env p pageNum =
     (case native_text p pageNum of
        Inl e \<Rightarrow> Inl e
      | Inr pageText \<Rightarrow>
          if length (trim pageText) < 50
          then (case extractImagesFromPage p pageNum of
                  Inl e \<Rightarrow> Inl e
                | Inr images \<Rightarrow> ocr_text env images pageText)
          else Inr pageText)"

definition in_range :: "pdf \<Rightarrow> int \<Rightarrow> bool" where
  "in_range p pageNum = (1 \<le> pageNum \<and> pageNum \<le> doc_numPages p)"

section \<open>JSON values\<close>

text \<open>
  What \<open>JSON.parse\<close> returns. Numbers are the integral ones; an object lists its
  members, each key once.
\<close>

datatype json =
    JNull
  | JBool bool
  | JNum int
  | JStr string
  | JArr "json list"
  | JObj "(string \<times> json) list"

text \<open>
  Reading the property \<open>k\<close> of a value that is not \<open>null\<close>; \<^const>\<open>None\<close> is
  \<open>undefined\<close>. Only the keys the components read are meant: \<open>name\<close>, \<open>error\<close>,
  \<open>message\<close>, \<open>choices\<close>, \<open>content\<close>, which no primitive or array has.
\<close>

definition member :: "json \<Rightarrow> string \<Rightarrow> json option" where
  "member v k = (case v of JObj kvs \<Rightarrow> map_of kvs k | _ \<Rightarrow> None)"

text \<open>JavaScript's truthiness of a value that may be \<open>undefined\<close>.\<close>

definition truthy :: "json option \<Rightarrow> bool" where
  "truthy x =
     (case x of
        None \<Rightarrow> False
      | Some JNull \<Rightarrow> False
      | Some (JBool b) \<Rightarrow> b
      | Some (JNum n) \<Rightarrow> n \<noteq> 0
      | Some (JStr s) \<Rightarrow> s \<noteq> []
      | Some _ \<Rightarrow> True)"

section \<open>The recent-files cache: Index and PDFHistory\<close>

text \<open>
  A string held in \<open>localStorage\<close>, by what \<open>JSON.parse\<close> makes of it: the empty
  string, another string that \<open>JSON.parse\<close> rejects, or a string that parses to the
  given value (\<open>JSON.stringify\<close> of such a value gives a string of the last kind).
\<close>

datatype stored = Empty_string | Malformed | Json json

type_synonym storage = "string \<Rightarrow> stored option"

definition MAX_STORAGE_SIZE :: real where
  "MAX_STORAGE_SIZE = 4 * 1024 * 1024"

text \<open>
  A file chosen by the user: its name, and the base64 part of the data URL that
  \<open>FileReader.readAsDataURL\<close> produces for it (\<^const>\<open>None\<close> when the reader fires
  \<open>onerror\<close>).
\<close>

record pdf_file =
  file_name :: string
  file_base64 :: "string option"

text \<open>The state of \<open>Index\<close>, with the browser's \<open>localStorage\<close> and the toaster.\<close>

record index =
  pdfFile :: "pdf_file option"
  localStorage :: storage
  index_toasts :: "toast list"

definition historyItem_json :: "string \<Rightarrow> string \<Rightarrow> int \<Rightarrow> json" where
  "historyItem_json name' data' lastOpened =
     JObj [(''name'', JStr name'), (''data'', JStr data'), (''lastOpened'', JNum lastOpened)]"

text \<open>
  \<open>history.filter((item) => item.name !== file.name)\<close>: a \<open>TypeError\<close>
  (\<^const>\<open>None\<close>) when \<open>history\<close> is not an array or one of its items is \<open>null\<close>.
\<close>

definition history_filter :: "string \<Rightarrow> json \<Rightarrow> json list option" where
  "history_filter name' history =
     (case history of
        JArr items \<Rightarrow>
          if JNull \<in> set items then None
          else Some (filter (\<lambda>item. member item ''name'' \<noteq> Some (JStr name')) items)
      | _ \<Rightarrow> None)"

text \<open>
  The inner \<open>try\<close> block of \<open>handleFileSelect\<close> (\<open>src/pages/Index.tsx\<close>), lines 37 to 43; \<^const>\<open>None\<close> when
  it throws. \<open>accepts\<close> tells whether the browser's quota lets \<open>setItem\<close> store the
  value.
\<close>

definition update_history :: "(json \<Rightarrow> bool) \<Rightarrow> string \<Rightarrow> json \<Rightarrow> storage \<Rightarrow> storage option" where
  "update_history accepts name' historyItem ls =
     (let text = (case ls ''pdfHistory'' of
                    None \<Rightarrow> Json (JArr [])
                  | Some Empty_string \<Rightarrow> Json (JArr [])
                  | Some t \<Rightarrow> t)
      in case text of
           Json history \<Rightarrow>
             (case history_filter name' history of
                None \<Rightarrow> None
              | Some others \<Rightarrow>
                  (let updatedHistory = take 3 (historyItem # others) in
                   if accepts (JArr updatedHistory)
                   then Some (ls(''pdfHistory'' \<mapsto> Json (JArr updatedHistory)))
                   else None))
         | _ \<Rightarrow> None)"

text \<open>\<open>handleFileSelect\<close> of \<open>Index\<close>, lines 12 to 65; \<open>now\<close> is \<open>Date.now()\<close>.\<close>

definition handleFileSelect :: "int \<Rightarrow> (json \<Rightarrow> bool) \<Rightarrow> pdf_file \<Rightarrow> index \<Rightarrow> index" where
  "handleFileSelect now accepts f s =
     (let s1 = s\<lparr>pdfFile := Some f\<rparr> in
      case file_base64 f of
        None \<Rightarrow> s1\<lparr>index_toasts := index_toasts s1 @ [Toast_error ''Error reading file'']\<rparr>
      | Some base64Data \<Rightarrow>
          (let estimatedSize = real (length base64Data) * 0.75 in
           if estimatedSize > MAX_STORAGE_SIZE
           then s1\<lparr>index_toasts := index_toasts s1 @ [Toast_warning ''File too large to save in history'']\<rparr>
           else
             (let historyItem = historyItem_json (file_name f) base64Data now in
              case update_history accepts (file_name f) historyItem (localStorage s1) of
                Some ls \<Rightarrow> s1\<lparr>localStorage := ls\<rparr>
              | None \<Rightarrow>
                  if accepts (JArr [historyItem])
                  then s1\<lparr>localStorage := Map.empty(''pdfHistory'' \<mapsto> Json (JArr [historyItem]))\<rparr>
                  else s1\<lparr>localStorage := Map.empty,
                          index_toasts := index_toasts s1 @
                            [Toast_error ''Could not save to history: storage full'']\<rparr>)))"

text \<open>
  \<open>getHistory\<close> of \<open>PDFHistory\<close> (\<open>src/unnamed/part_000\<close>, lines 17 to 32): the list
  returned and the storage afterwards.
\<close>

definition getHistory :: "storage \<Rightarrow> json list \<times> storage" where
  "getHistory ls =
     (case ls ''pdfHistory'' of
        None \<Rightarrow> ([], ls)
      | Some Empty_string \<Rightarrow> ([], ls)
      | Some Malformed \<Rightarrow> ([], ls(''pdfHistory'' := None))
      | Some (Json parsedHistory) \<Rightarrow>
          (case parsedHistory of
             JArr items \<Rightarrow> (items, ls)
           | _ \<Rightarrow> ([], ls)))"

text \<open>
  \<open>handleFileOpen\<close> of \<open>PDFHistory\<close>, lines 34 to 57, for an item of type
  \<open>PDFHistoryItem\<close>; \<^const>\<open>None\<close> when the \<open>catch\<close> block itself throws.
  \<open>atob\<close> decodes base64 and gives \<^const>\<open>None\<close> where the browser's throws; the file
  handed to \<open>onFileSelect\<close> is read back as the same base64 text.
\<close>

record historyItem =
  item_name :: string
  item_data :: string
  item_lastOpened :: int

definition handleFileOpen ::
  "(string \<Rightarrow> string option) \<Rightarrow> int \<Rightarrow> (json \<Rightarrow> bool) \<Rightarrow> historyItem \<Rightarrow> index \<Rightarrow> index option" where
  "handleFileOpen atob now accepts item s =
     (case atob (item_data item) of
        Some binaryStr \<Rightarrow>
          Some (handleFileSelect now accepts
                  \<lparr>file_name = item_name item, file_base64 = Some (item_data item)\<rparr> s)
      | None \<Rightarrow>
          (let s1 = s\<lparr>index_toasts := index_toasts s @
                         [Toast_error ''Could not open the file. Please try uploading it again.'']\<rparr>;
               history = fst (getHistory (localStorage s1));
               ls1 = snd (getHistory (localStorage s1))
           in if JNull \<in> set history then None
              else
                (let updatedHistory = filter (\<lambda>i. member i ''name'' \<noteq> Some (JStr (item_name item))) history
                 in if accepts (JArr updatedHistory)
                    then Some (s1\<lparr>localStorage := ls1(''pdfHistory'' \<mapsto> Json (JArr updatedHistory))\<rparr>)
                    else None)))"

text \<open>The entries the cache holds, and the states the application can reach.\<close>

definition cache :: "storage \<Rightarrow> json list" where
  "cache ls = (case ls ''pdfHistory'' of Some (Json (JArr items)) \<Rightarrow> items | _ \<Rightarrow> [])"

definition entry_names :: "storage \<Rightarrow> json option list" where
  "entry_names ls = map (\<lambda>item. member item ''name'') (cache ls)"

inductive reachable :: "index \<Rightarrow> bool" where
  fresh: "reachable \<lparr>pdfFile = None, localStorage = Map.empty, index_toasts = []\<rparr>"
| select: "reachable s \<Longrightarrow> reachable (handleFileSelect now accepts f s)"
| read: "reachable s \<Longrightarrow> reachable (s\<lparr>localStorage := snd (getHistory (localStorage s))\<rparr>)"
| opened: "reachable s \<Longrightarrow> handleFileOpen atob now accepts item s = Some s' \<Longrightarrow> reachable s'"

section \<open>ChatBot\<close>

text \<open>The component of \<open>src/components/pdf/ChatBot.tsx\<close>.\<close>

datatype role = User | Assistant

record message =
  role :: role
  content :: string

text \<open>
  The outcome of \<open>fetch\<close>: the promise rejects with an error, or resolves with a
  response, of which the handler reads the status and the body. The body is given by
  its characters and by what \<open>JSON.parse\<close> makes of them (\<^const>\<open>None\<close> where it
  throws).
\<close>

record response =
  status :: nat
  body_text :: string
  body_json :: "json option"

datatype fetched = Rejected string | Resolved response

definition response_ok :: "response \<Rightarrow> bool" where
  "response_ok r = (200 \<le> status r \<and> status r \<le> 299)"

text \<open>
  The messages of the errors the JavaScript engine itself throws in the handler, which
  differ between browsers: the \<open>SyntaxError\<close> of \<open>response.json()\<close>, the \<open>TypeError\<close>
  of reading \<open>choices\<close> of \<open>null\<close>, and that of calling \<open>trim\<close> on a value that is
  not a string.
\<close>

record engine =
  syntaxErrorMessage :: "string \<Rightarrow> string"
  nullReadMessage :: string
  notAFunctionMessage :: string

text \<open>The state of \<open>ChatBot\<close>, with the toaster.\<close>

record chat =
  messages :: "message list"
  input :: string
  isProcessing :: bool
  chat_toasts :: "toast list"

text \<open>
  \<open>String(v)\<close> for a value of \<open>JSON.parse\<close>, as \<open>new Error(v)\<close> applies it to its
  argument.
\<close>

fun to_string :: "json \<Rightarrow> string" where
  "to_string JNull = ''null''"
| "to_string (JBool b) = (if b then ''true'' else ''false'')"
| "to_string (JNum n) = show_int n"
| "to_string (JStr s) = s"
| "to_string (JArr xs) = join '','' (map (\<lambda>x. if x = JNull then [] else to_string x) xs)"
| "to_string (JObj kvs) = ''[object Object]''"

text \<open>
  Lines 129 to 137: the message of the error thrown for a response that is not ok.
  Reading \<open>errorData.error\<close> of \<open>null\<close> throws inside the inner \<open>try\<close>, as a body
  that does not parse does.
\<close>

definition error_message_of :: "response \<Rightarrow> string" where
  "error_message_of r =
     (case body_json r of
        None \<Rightarrow> ''HTTP '' @ show_nat (status r) @ '': '' @ body_text r
      | Some JNull \<Rightarrow> ''HTTP '' @ show_nat (status r) @ '': '' @ body_text r
      | Some errorData \<Rightarrow>
          (let inner = (case member errorData ''error'' of
                          None \<Rightarrow> None
                        | Some JNull \<Rightarrow> None
                        | Some e \<Rightarrow> member e ''message'')
           in if truthy inner then to_string (the inner)
              else if truthy (member errorData ''message'') then to_string (the (member errorData ''message''))
              else ''Failed to get response from AI''))"

text \<open>\<open>v[0]\<close> for a truthy value \<open>v\<close>.\<close>

definition index0 :: "json \<Rightarrow> json option" where
  "index0 v =
     (case v of
        JArr xs \<Rightarrow> (case xs of [] \<Rightarrow> None | x # _ \<Rightarrow> Some x)
      | JStr s \<Rightarrow> (case s of [] \<Rightarrow> None | c # _ \<Rightarrow> Some (JStr [c]))
      | JObj kvs \<Rightarrow> map_of kvs ''0''
      | _ \<Rightarrow> None)"

text \<open>
  Lines 142 to 154: the reply read from a response that is ok, or the message of the
  error thrown.
\<close>

definition ai_response :: "engine \<Rightarrow> response \<Rightarrow> string + string" where
  "ai_response eng r =
     (case body_json r of
        None \<Rightarrow> Inl (syntaxErrorMessage eng (body_text r))
      | Some JNull \<Rightarrow> Inl (nullReadMessage eng)
      | Some data' \<Rightarrow>
          (let choices = member data' ''choices'';
               choice0 = (if truthy choices then index0 (the choices) else None);
               msg = (if truthy choice0 then member (the choice0) ''message'' else None)
           in if \<not> truthy choices \<or> \<not> truthy choice0 \<or> \<not> truthy msg
              then Inl ''Invalid response format from API''
              else (case member (the msg) ''content'' of
                      Some (JStr aiResponse) \<Rightarrow>
                        if aiResponse = [] \<or> trim aiResponse = [] then Inl ''Empty response from AI''
                        else Inr aiResponse
                    | other \<Rightarrow>
                        if truthy other then Inl (notAFunctionMessage eng)
                        else Inl ''Empty response from AI'')))"

text \<open>Lines 169 to 183: the text shown for an error, by what its message includes.\<close>

definition categorize :: "string \<Rightarrow> string" where
  "categorize error_message =
     (if str_includes error_message ''Failed to fetch'' \<or> str_includes error_message ''NetworkError''
      then ''Network error. Please check your internet connection and try again.''
      else if str_includes error_message ''401''
      then ''Authentication error. The API key may be invalid.''
      else if str_includes error_message ''429''
      then ''Rate limit exceeded. Please wait a moment and try again.''
      else if str_includes error_message ''404''
      then ''The AI model is not available. Please try again later.''
      else ''Error: '' @ error_message)"

definition not_thinking :: "message \<Rightarrow> bool" where
  "not_thinking m = (content m \<noteq> ''Thinking...'')"

text \<open>The \<open>catch\<close> block, lines 163 to 193, for an error with the given message.\<close>

definition on_error :: "toast_id \<Rightarrow> string \<Rightarrow> chat \<Rightarrow> chat" where
  "on_error loadingToastId error_message c =
     c\<lparr>messages := filter not_thinking (messages c) @
          [\<lparr>role = Assistant,
            content = categorize error_message @ '' Please try again or rephrase your question.''\<rparr>],
       chat_toasts := chat_toasts c @ [Toast_dismiss loadingToastId,
                                     Toast_error ''Failed to generate response'']\<rparr>"

text \<open>
  \<open>handleSubmit\<close> of \<open>ChatBot\<close>, lines 32 to 197, for the given \<open>API_KEY\<close> (empty
  when it is not configured) and outcome of the request.
\<close>

definition handleSubmit :: "engine \<Rightarrow> string \<Rightarrow> fetched \<Rightarrow> chat \<Rightarrow> chat" where
  "handleSubmit eng API_KEY outcome c =
     (if trim (input c) = [] \<or> isProcessing c then c
      else if API_KEY = []
      then c\<lparr>chat_toasts := chat_toasts c @
                [Toast_error ''API key not configured. Please check your environment variables.'']\<rparr>
      else
        (let userMessage = \<lparr>role = User, content = trim (input c)\<rparr>;
             loadingToastId = Id_auto (length (chat_toasts c));
             c1 = c\<lparr>messages := messages c @ [userMessage, \<lparr>role = Assistant, content = ''Thinking...''\<rparr>],
                    input := [],
                    isProcessing := True,
                    chat_toasts := chat_toasts c @ [Toast_loading loadingToastId ''Processing your question...'']\<rparr>;
             c2 = (case outcome of
                     Rejected error_message \<Rightarrow> on_error loadingToastId error_message c1
                   | Resolved r \<Rightarrow>
                       (let c' = c1\<lparr>messages := filter not_thinking (messages c1)\<rparr> in
                        if \<not> response_ok r then on_error loadingToastId (error_message_of r) c'
                        else (case ai_response eng r of
                                Inl error_message \<Rightarrow> on_error loadingToastId error_message c'
                              | Inr aiResponse \<Rightarrow>
                                  c'\<lparr>messages := messages c' @ [\<lparr>role = Assistant, content = aiResponse\<rparr>],
                                     chat_toasts := chat_toasts c' @
                                       [Toast_dismiss loadingToastId,
                                        Toast_success ''Response generated successfully!'']\<rparr>)))
         in c2\<lparr>isProcessing := False\<rparr>))"

section \<open>Notions used in the statements\<close>

text \<open>A page whose native text, trimmed, is shorter than 50 characters.\<close>

definition needs_fallback :: "pdf \<Rightarrow> int \<Rightarrow> bool" where
  "needs_fallback p n = (case native_text p n of Inl e \<Rightarrow> False | Inr t \<Rightarrow> length (trim t) < 50)"

text \<open>
  The call log agrees with the decision rule: the slow path is entered only for pages
  that need it, and for every such page whose text was read.
\<close>

definition calls_ok :: "pdf \<Rightarrow> call list \<Rightarrow> bool" where
  "calls_ok p cs =
     ((\<forall>n. Call_extractImages n \<in> set cs \<longrightarrow> needs_fallback p n) \<and>
      (\<forall>n u. Call_recognize n u \<in> set cs \<longrightarrow> needs_fallback p n) \<and>
      (\<forall>n. Call_getTextContent n \<in> set cs \<and> needs_fallback p n \<longrightarrow> Call_extractImages n \<in> set cs) \<and>
      (\<forall>n u us. Call_getTextContent n \<in> set cs \<and> needs_fallback p n
          \<and> extractImagesFromPage p n = Inr (u # us) \<longrightarrow> Call_recognize n u \<in> set cs))"

text \<open>An entry of the shape \<open>handleFileSelect\<close> writes, and a cache in good order.\<close>

definition is_item :: "json \<Rightarrow> bool" where
  "is_item j = (\<exists>n d t. j = historyItem_json n d t)"

definition cache_ok :: "storage \<Rightarrow> bool" where
  "cache_ok ls = (length (cache ls) \<le> 3 \<and> distinct (entry_names ls) \<and> (\<forall>item\<in>set (cache ls). is_item item))"

section \<open>Example inputs\<close>

text \<open>
  A document of four pages: page 1 carries 56 characters of text, page 2 is a scan
  with the word \<open>scan\<close> in its text layer, page 3 has no text and cannot be rendered,
  page 4 has no text and the engine recognises none on it.
\<close>

definition example_pdf :: pdf where
  "example_pdf =
     \<lparr>doc_numPages = 4,
      getPage = (\<lambda>n.
        if n = 1 then Inr \<lparr>textContent = Inr [''The quick brown fox jumps over'', ''the lazy dog, twice over.''],
                            hasContext = True, rendered = Inr ''img1''\<rparr>
        else if n = 2 then Inr \<lparr>textContent = Inr [''scan''], hasContext = True, rendered = Inr ''img2''\<rparr>
        else if n = 3 then Inr \<lparr>textContent = Inr [], hasContext = True,
                                 rendered = Inl (Error ''render failed'')\<rparr>
        else Inr \<lparr>textContent = Inr [], hasContext = True, rendered = Inr ''img4''\<rparr>)\<rparr>"

definition example_env :: ocr_env where
  "example_env =
     \<lparr>getDocument = Inr example_pdf,
      recognize = (\<lambda>u. if u = ''img2'' then Inr ''recognised words'' else Inr [])\<rparr>"

text \<open>A viewer of that document, split to pages 1 to 3, and one as loaded, of ten pages.\<close>

definition example_viewer :: viewer where
  "example_viewer =
     \<lparr>numPages = 4, currentPage = 1, scale = 1, splitPdfPages = [1, 2, 3], isSplit = True,
      ocrText = ''earlier text'', showChat = False, isProcessingOCR = False, scrollTop = 0,
      toasts = []\<rparr>"

definition loaded_viewer :: viewer where
  "loaded_viewer =
     \<lparr>numPages = 10, currentPage = 7, scale = 1, splitPdfPages = [], isSplit = False,
      ocrText = [], showChat = False, isProcessingOCR = False, scrollTop = 0, toasts = []\<rparr>"

text \<open>The ten-page viewer after the split control was applied to pages 3 to 5.\<close>

definition split_viewer :: viewer where
  "split_viewer =
     snd (controls_handleSplit (\<lparr>startPage = 3, endPage = 5, showSplitControls = True\<rparr>, loaded_viewer))"

text \<open>
  Files for the cache: a small one under a given name, and one whose base64 text has
  5592406 characters, an estimated 4194304.5 bytes. The example state is reached by
  opening \<open>a.pdf\<close>, \<open>b.pdf\<close>, \<open>c.pdf\<close>, \<open>a.pdf\<close> again and \<open>d.pdf\<close> on a fresh
  storage that accepts every write.
\<close>

definition example_file :: "string \<Rightarrow> pdf_file" where
  "example_file n = \<lparr>file_name = n, file_base64 = Some ''JVBERi0xLjQK''\<rparr>"

definition large_file :: pdf_file where
  "large_file = \<lparr>file_name = ''big.pdf'', file_base64 = Some (replicate 5592406 (CHR ''A''))\<rparr>"

definition fresh_index :: index where
  "fresh_index = \<lparr>pdfFile = None, localStorage = Map.empty, index_toasts = []\<rparr>"

definition example_index :: index where
  "example_index =
     handleFileSelect 5 (\<lambda>j. True) (example_file ''d.pdf'')
       (handleFileSelect 4 (\<lambda>j. True) (example_file ''a.pdf'')
         (handleFileSelect 3 (\<lambda>j. True) (example_file ''c.pdf'')
           (handleFileSelect 2 (\<lambda>j. True) (example_file ''b.pdf'')
             (handleFileSelect 1 (\<lambda>j. True) (example_file ''a.pdf'') fresh_index))))"

text \<open>A storage whose \<open>pdfHistory\<close> key holds the text \<open>{}\<close>.\<close>

definition stale_storage :: storage where
  "stale_storage = Map.empty(''pdfHistory'' \<mapsto> Json (JObj []))"

text \<open>
  A chat with a question typed in, an engine with the messages of V8, and two
  responses of status 429: one with the JSON body
  \<^verbatim>\<open>{"error":{"message":"Provider returned error","code":429}}\<close>, one with a body
  of plain text.
\<close>

definition quoted :: "string \<Rightarrow> string" where
  "quoted s = CHR 0x22 # s @ [CHR 0x22]"

definition example_engine :: engine where
  "example_engine =
     \<lparr>syntaxErrorMessage = (\<lambda>s. ''Unexpected end of JSON input''),
      nullReadMessage = ''Cannot read properties of null'',
      notAFunctionMessage = ''aiResponse.trim is not a function''\<rparr>"

definition greeting :: message where
  "greeting = \<lparr>role = Assistant,
               content = ''Hello! I can answer questions about the PDF content. What would you like to know?''\<rparr>"

definition example_chat :: chat where
  "example_chat = \<lparr>messages = [greeting], input = ''What is a fox? '', isProcessing = False, chat_toasts = []\<rparr>"

definition rate_limited :: fetched where
  "rate_limited =
     Resolved \<lparr>status = 429,
               body_text = ''{'' @ quoted ''error'' @ '':{'' @ quoted ''message'' @ '':''
                           @ quoted ''Provider returned error'' @ '','' @ quoted ''code'' @ '':429}}'',
               body_json = Some (JObj [(''error'', JObj [(''message'', JStr ''Provider returned error''),
                                                         (''code'', JNum 429)])])\<rparr>"

definition rate_limited_plain :: fetched where
  "rate_limited_plain = Resolved \<lparr>status = 429, body_text = ''Too Many Requests'', body_json = None\<rparr>"

section \<open>Properties\<close>

subsection \<open>Split\<close>

lemma array_from_upto: "array_from (e - s + 1) (\<lambda>i. s + i) = [s..e]"
proof (rule nth_equalityI)
  show "length (array_from (e - s + 1) (\<lambda>i. s + i)) = length [s..e]"
    by (simp add: array_from_def)
next
  fix i assume "i < length (array_from (e - s + 1) (\<lambda>i. s + i))"
  then show "array_from (e - s + 1) (\<lambda>i. s + i) ! i = [s..e] ! i"
    by (simp add: array_from_def)
qed

text \<open>
  Claim C6. For every \<open>(start, end)\<close> with \<open>1 \<le> start \<le> end \<le> numPages\<close>, the split
  control sets the active page sequence to exactly \<open>[start, start + 1, ..., end]\<close>,
  sets the split flag and resets the current page to \<open>start\<close>.
\<close>

theorem split_sets_range:
  assumes "1 \<le> startPage c" and "startPage c \<le> endPage c" and "endPage c \<le> numPages v"
  shows "pages (snd (controls_handleSplit (c, v))) = [startPage c..endPage c]
         \<and> splitPdfPages (snd (controls_handleSplit (c, v))) = [startPage c..endPage c]
         \<and> isSplit (snd (controls_handleSplit (c, v)))
         \<and> currentPage (snd (controls_handleSplit (c, v))) = startPage c"
  using assms
  by (simp add: controls_handleSplit_def handleSplit_def pages_def toast_def array_from_upto)

theorem split_sets_range_witness:
  "pages (snd (controls_handleSplit
      (\<lparr>startPage = 2, endPage = 4, showSplitControls = True\<rparr>, loaded_viewer))) = [2, 3, 4]
   \<and> isSplit (snd (controls_handleSplit
      (\<lparr>startPage = 2, endPage = 4, showSplitControls = True\<rparr>, loaded_viewer)))
   \<and> currentPage (snd (controls_handleSplit
      (\<lparr>startPage = 2, endPage = 4, showSplitControls = True\<rparr>, loaded_viewer))) = 2"
proof -
  let ?c = "\<lparr>startPage = 2, endPage = 4, showSplitControls = True\<rparr>"
  have 1: "1 \<le> startPage ?c" and 2: "startPage ?c \<le> endPage ?c"
    by simp_all
  have 3: "endPage ?c \<le> numPages loaded_viewer"
    by (simp add: loaded_viewer_def)
  have 4: "[startPage ?c..endPage ?c] = [2, 3, 4]"
    by code_simp
  from split_sets_range [OF 1 2 3] show ?thesis
    unfolding 4 by simp
qed

text \<open>
  Claim C7. For every invalid range (\<open>start > end\<close>, or \<open>start < 1\<close>, or
  \<open>end > numPages\<close>) the split control changes nothing: the state of the controls and
  of the viewer, the toaster included, is the one before, so the active page sequence,
  the current page and the split flag are unchanged and no message is shown.
\<close>

theorem split_invalid_unchanged:
  assumes "startPage c > endPage c \<or> startPage c < 1 \<or> endPage c > numPages v"
  shows "controls_handleSplit (c, v) = (c, v)"
  using assms by (auto simp add: controls_handleSplit_def)

theorem split_invalid_unchanged_witness:
  "controls_handleSplit (\<lparr>startPage = 5, endPage = 2, showSplitControls = True\<rparr>, loaded_viewer)
     = (\<lparr>startPage = 5, endPage = 2, showSplitControls = True\<rparr>, loaded_viewer)
   \<and> controls_handleSplit (\<lparr>startPage = 0, endPage = 3, showSplitControls = True\<rparr>, loaded_viewer)
     = (\<lparr>startPage = 0, endPage = 3, showSplitControls = True\<rparr>, loaded_viewer)
   \<and> controls_handleSplit (\<lparr>startPage = 3, endPage = 11, showSplitControls = True\<rparr>, loaded_viewer)
     = (\<lparr>startPage = 3, endPage = 11, showSplitControls = True\<rparr>, loaded_viewer)"
proof -
  have 1: "startPage \<lparr>startPage = 5, endPage = 2, showSplitControls = True\<rparr>
             > endPage \<lparr>startPage = 5, endPage = 2, showSplitControls = True\<rparr>"
    by simp
  have 2: "startPage \<lparr>startPage = 0, endPage = 3, showSplitControls = True\<rparr> < 1"
    by simp
  have 3: "endPage \<lparr>startPage = 3, endPage = 11, showSplitControls = True\<rparr> > numPages loaded_viewer"
    by (simp add: loaded_viewer_def)
  from 1 have a: "controls_handleSplit (\<lparr>startPage = 5, endPage = 2, showSplitControls = True\<rparr>, loaded_viewer)
     = (\<lparr>startPage = 5, endPage = 2, showSplitControls = True\<rparr>, loaded_viewer)"
    by (intro split_invalid_unchanged disjI1)
  from 2 have b: "controls_handleSplit (\<lparr>startPage = 0, endPage = 3, showSplitControls = True\<rparr>, loaded_viewer)
     = (\<lparr>startPage = 0, endPage = 3, showSplitControls = True\<rparr>, loaded_viewer)"
    by (intro split_invalid_unchanged disjI2 disjI1)
  from 3 have c: "controls_handleSplit (\<lparr>startPage = 3, endPage = 11, showSplitControls = True\<rparr>, loaded_viewer)
     = (\<lparr>startPage = 3, endPage = 11, showSplitControls = True\<rparr>, loaded_viewer)"
    by (intro split_invalid_unchanged disjI2)
  from a b c show ?thesis by (intro conjI)
qed

subsection \<open>The loop of performOCR\<close>

lemma recognize_all_text:
  "fst (recognize_all env n images t cs) = ocr_text env images t"
  by (induction images arbitrary: t cs) (auto split: sum.splits)

lemma recognize_all_textD:
  "recognize_all env n images t cs = (a, cs') \<Longrightarrow> ocr_text env images t = a"
  using recognize_all_text [of env n images t cs] by simp

lemma recognize_all_calls:
  "set (snd (recognize_all env n images t cs)) \<subseteq> set cs \<union> Call_recognize n ` set images
   \<and> set cs \<subseteq> set (snd (recognize_all env n images t cs))"
proof (induction images arbitrary: t cs)
  case Nil
  then show ?case by simp
next
  case (Cons u us)
  show ?case
  proof (cases "recognize env u")
    case (Inl e)
    then show ?thesis by auto
  next
    case (Inr t')
    from Cons [of "t @ '' '' @ t'" "cs @ [Call_recognize n u]"] Inr
    show ?thesis by auto
  qed
qed

lemma recognize_all_first:
  "Call_recognize n u \<in> set (snd (recognize_all env n (u # us) t cs))"
proof (cases "recognize env u")
  case (Inl e)
  then show ?thesis by simp
next
  case (Inr t')
  with recognize_all_calls [where cs = "cs @ [Call_recognize n u]" and env = env and n = n
      and images = us and t = "t @ '' '' @ t'"]
  show ?thesis by auto
qed

lemma process_page_result:
  "fst (process_page env p n r) = (case page_text env p n of Inl e \<Rightarrow> Some e | Inr t \<Rightarrow> None)"
  by (auto simp add: process_page_def page_text_def Let_def
      split: sum.splits prod.splits dest: recognize_all_textD)

lemma process_page_fullText:
  "fullText (snd (process_page env p n r)) =
     (case page_text env p n of Inl e \<Rightarrow> fullText r | Inr t \<Rightarrow> fullText r @ page_section n t)"
  by (auto simp add: process_page_def page_text_def Let_def
      split: sum.splits prod.splits dest: recognize_all_textD)

lemma process_page_errors:
  "filter is_error (ocr_toasts (snd (process_page env p n r))) = filter is_error (ocr_toasts r)"
  by (auto simp add: process_page_def Let_def is_error_def split: sum.splits prod.splits)

lemma in_range_guard: "(doc_numPages p < n \<or> n < 1) = (\<not> in_range p n)"
  by (auto simp add: in_range_def)

lemma process_pages_skip:
  "process_pages env p ps r = process_pages env p (filter (in_range p) ps) r"
  by (induction ps arbitrary: r) (auto simp add: in_range_guard split: prod.splits option.splits)

lemma process_pages_result:
  "(fst (process_pages env p ps r) = None) =
     (\<forall>n\<in>set ps. in_range p n \<longrightarrow> \<not> isl (page_text env p n))"
proof (induction ps arbitrary: r)
  case Nil
  then show ?case by simp
next
  case (Cons n ps)
  show ?case
  proof (cases "in_range p n")
    case False
    then show ?thesis using Cons by (auto simp add: in_range_guard)
  next
    case True
    obtain res r' where pp: "process_page env p n r = (res, r')"
      by (cases "process_page env p n r")
    with process_page_result [of env p n r]
    have res: "res = (case page_text env p n of Inl e \<Rightarrow> Some e | Inr t \<Rightarrow> None)"
      by simp
    show ?thesis
    proof (cases "page_text env p n")
      case (Inl e)
      with res pp True show ?thesis by (auto simp add: in_range_guard)
    next
      case (Inr t)
      with res pp True Cons [of r'] show ?thesis by (auto simp add: in_range_guard)
    qed
  qed
qed

lemma process_pages_errors:
  "filter is_error (ocr_toasts (snd (process_pages env p ps r))) = filter is_error (ocr_toasts r)"
proof (induction ps arbitrary: r)
  case Nil
  then show ?case by simp
next
  case (Cons n ps)
  obtain res r' where pp: "process_page env p n r = (res, r')"
    by (cases "process_page env p n r")
  with process_page_errors [of env p n r]
  have "filter is_error (ocr_toasts r') = filter is_error (ocr_toasts r)" by simp
  with pp Cons [of r'] Cons [of r] show ?case
    by (cases res) auto
qed

lemma process_pages_fullText:
  assumes "\<forall>n\<in>set ps. in_range p n \<longrightarrow> \<not> isl (page_text env p n)"
  shows "fullText (snd (process_pages env p ps r)) =
           fullText r @ concat (map (\<lambda>n. page_section n (projr (page_text env p n)))
                                  (filter (in_range p) ps))"
  using assms
proof (induction ps arbitrary: r)
  case Nil
  then show ?case by simp
next
  case (Cons n ps)
  show ?case
  proof (cases "in_range p n")
    case False
    then show ?thesis using Cons by (auto simp add: in_range_guard)
  next
    case True
    with Cons.prems obtain t where t: "page_text env p n = Inr t"
      by (cases "page_text env p n") auto
    obtain res r' where pp: "process_page env p n r = (res, r')"
      by (cases "process_page env p n r")
    from pp t process_page_result [of env p n r] have res: "res = None" by simp
    from pp t process_page_fullText [of env p n r]
    have ft: "fullText r' = fullText r @ page_section n t" by simp
    from Cons.IH [of r'] Cons.prems
    have "fullText (snd (process_pages env p ps r')) =
            fullText r' @ concat (map (\<lambda>n. page_section n (projr (page_text env p n)))
                                   (filter (in_range p) ps))"
      by simp
    with pp res ft t True show ?thesis by (simp add: in_range_guard)
  qed
qed

lemma process_page_calls_set:
  "\<exists>R. set (calls (snd (process_page env p n r))) =
         set (calls r) \<union> {Call_getTextContent n} \<union>
           (if needs_fallback p n then {Call_extractImages n} \<union> R else {})
       \<and> R \<subseteq> range (Call_recognize n)
       \<and> (\<forall>u us. extractImagesFromPage p n = Inr (u # us) \<longrightarrow> Call_recognize n u \<in> R)"
proof (cases "native_text p n")
  case (Inl e)
  then show ?thesis
    by (auto simp add: process_page_def needs_fallback_def)
next
  case nat: (Inr t)
  show ?thesis
  proof (cases "length (trim t) < 50")
    case False
    with nat show ?thesis
      by (auto simp add: process_page_def needs_fallback_def)
  next
    case short: True
    show ?thesis
    proof (cases "extractImagesFromPage p n")
      case (Inl e)
      with nat short show ?thesis
        by (auto simp add: process_page_def needs_fallback_def Let_def)
    next
      case (Inr images)
      define cs0 where "cs0 = calls r @ [Call_getTextContent n, Call_extractImages n]"
      define cs1 where "cs1 = snd (recognize_all env n images t cs0)"
      have c: "calls (snd (process_page env p n r)) = cs1"
        using nat short Inr
        by (auto simp add: process_page_def Let_def cs1_def cs0_def split: prod.splits sum.splits)
      have sub: "set cs1 \<subseteq> set cs0 \<union> Call_recognize n ` set images" "set cs0 \<subseteq> set cs1"
        using recognize_all_calls [of env n images t cs0] by (simp_all add: cs1_def)
      have first: "\<And>u us. images = u # us \<Longrightarrow> Call_recognize n u \<in> set cs1"
        using recognize_all_first [of n _ env _ t cs0] by (simp add: cs1_def)
      let ?R = "set cs1 \<inter> range (Call_recognize n)"
      have "set cs1 = set (calls r) \<union> {Call_getTextContent n} \<union> ({Call_extractImages n} \<union> ?R)"
        using sub by (auto simp add: cs0_def)
      moreover have "\<forall>u us. extractImagesFromPage p n = Inr (u # us) \<longrightarrow> Call_recognize n u \<in> ?R"
        using first Inr by auto
      ultimately show ?thesis
        using c nat short by (intro exI [of _ ?R]) (auto simp add: needs_fallback_def)
    qed
  qed
qed

lemma process_page_calls_ok:
  assumes "calls_ok p (calls r)"
  shows "calls_ok p (calls (snd (process_page env p n r)))"
proof -
  from process_page_calls_set [of env p n r] obtain R where
    s: "set (calls (snd (process_page env p n r))) =
         set (calls r) \<union> {Call_getTextContent n} \<union>
           (if needs_fallback p n then {Call_extractImages n} \<union> R else {})"
    and R: "R \<subseteq> range (Call_recognize n)"
    and f: "\<forall>u us. extractImagesFromPage p n = Inr (u # us) \<longrightarrow> Call_recognize n u \<in> R"
    by blast
  from assms have
    a1: "\<And>m. Call_extractImages m \<in> set (calls r) \<Longrightarrow> needs_fallback p m" and
    a2: "\<And>m u. Call_recognize m u \<in> set (calls r) \<Longrightarrow> needs_fallback p m" and
    a3: "\<And>m. Call_getTextContent m \<in> set (calls r) \<Longrightarrow> needs_fallback p m
           \<Longrightarrow> Call_extractImages m \<in> set (calls r)" and
    a4: "\<And>m u us. Call_getTextContent m \<in> set (calls r) \<Longrightarrow> needs_fallback p m
           \<Longrightarrow> extractImagesFromPage p m = Inr (u # us) \<Longrightarrow> Call_recognize m u \<in> set (calls r)"
    unfolding calls_ok_def by blast+
  let ?cs = "calls (snd (process_page env p n r))"
  have b1: "needs_fallback p m" if "Call_extractImages m \<in> set ?cs" for m
    using that a1 [of m] R unfolding s by (auto split: if_splits)
  have b2: "needs_fallback p m" if "Call_recognize m u \<in> set ?cs" for m u
    using that a2 [of m u] R unfolding s by (auto split: if_splits)
  have b3: "Call_extractImages m \<in> set ?cs"
    if "Call_getTextContent m \<in> set ?cs" "needs_fallback p m" for m
    using that a3 [of m] R unfolding s by (auto split: if_splits)
  have b4: "Call_recognize m u \<in> set ?cs"
    if "Call_getTextContent m \<in> set ?cs" "needs_fallback p m"
       "extractImagesFromPage p m = Inr (u # us)" for m u us
    using that a4 [of m u us] R f unfolding s by (auto split: if_splits)
  show ?thesis
    unfolding calls_ok_def using b1 b2 b3 b4 by blast
qed

lemma process_pages_calls_ok:
  "calls_ok p (calls r) \<Longrightarrow> calls_ok p (calls (snd (process_pages env p ps r)))"
proof (induction ps arbitrary: r)
  case Nil
  then show ?case by simp
next
  case (Cons n ps)
  obtain res r' where pp: "process_page env p n r = (res, r')"
    by (cases "process_page env p n r")
  with process_page_calls_ok [OF Cons.prems, of env n]
  have "calls_ok p (calls r')" by simp
  with pp Cons.IH [of r'] Cons.IH [of r] Cons.prems show ?case
    by (cases res) auto
qed

lemma performOCR_Inr:
  assumes "getDocument env = Inr p"
  shows "performOCR env ps ts =
     (let out = process_pages env p ps \<lparr>fullText = [], imageBasedPagesCount = 0, ocr_toasts = ts, calls = []\<rparr>;
          r = snd out
      in case fst out of
           Some e \<Rightarrow> (Inl e, ocr_toasts r @ [Toast_error ''Failed to extract text from PDF''], calls r)
         | None \<Rightarrow>
             (Inr (if fullText r = [] then ''No text found in the PDF.'' else fullText r),
              ocr_toasts r @
                (if imageBasedPagesCount r > 0
                 then [Toast_success (''Advanced OCR completed on '' @ show_nat (imageBasedPagesCount r)
                                      @ '' image-based pages'')]
                 else []),
              calls r))"
  using assms by (simp add: performOCR_def Let_def split: prod.splits option.splits)

lemma performOCR_calls:
  assumes "getDocument env = Inr p"
  shows "snd (snd (performOCR env ps ts)) =
           calls (snd (process_pages env p ps \<lparr>fullText = [], imageBasedPagesCount = 0, ocr_toasts = ts, calls = []\<rparr>))"
  by (simp add: performOCR_Inr [OF assms] Let_def split: option.splits)

lemma performOCR_calls_ok:
  assumes "getDocument env = Inr p"
  shows "calls_ok p (snd (snd (performOCR env ps ts)))"
  unfolding performOCR_calls [OF assms]
  by (rule process_pages_calls_ok) (simp add: calls_ok_def)

lemma performOCR_failure:
  assumes "getDocument env = Inr p"
    and "\<exists>n\<in>set ps. in_range p n \<and> isl (page_text env p n)"
  shows "\<exists>e ts' cs. performOCR env ps ts = (Inl e, ts', cs)
           \<and> filter is_error ts' = filter is_error ts @ [Toast_error ''Failed to extract text from PDF'']"
proof -
  let ?r0 = "\<lparr>fullText = [], imageBasedPagesCount = 0, ocr_toasts = ts, calls = []\<rparr>"
  from assms(2) process_pages_result [of env p ps ?r0]
  have "fst (process_pages env p ps ?r0) \<noteq> None" by blast
  then obtain e where e: "fst (process_pages env p ps ?r0) = Some e" by blast
  from process_pages_errors [of env p ps ?r0]
  have "filter is_error (ocr_toasts (snd (process_pages env p ps ?r0))) = filter is_error ts"
    by simp
  with e show ?thesis
    by (simp add: performOCR_Inr [OF assms(1)] Let_def is_error_def)
qed

lemma process_page_calls_mono:
  "set (calls r) \<union> {Call_getTextContent n} \<subseteq> set (calls (snd (process_page env p n r)))"
  using process_page_calls_set [of env p n r] by auto

lemma process_pages_calls_mono:
  "set (calls r) \<subseteq> set (calls (snd (process_pages env p ps r)))"
proof (induction ps arbitrary: r)
  case Nil
  then show ?case by simp
next
  case (Cons n ps)
  obtain res r' where pp: "process_page env p n r = (res, r')"
    by (cases "process_page env p n r")
  with process_page_calls_mono [of r n env p] have "set (calls r) \<subseteq> set (calls r')" by simp
  with pp Cons [of r'] Cons [of r] show ?case
    by (cases res) (auto split: if_splits)
qed

lemma process_pages_logged:
  assumes "fst (process_pages env p ps r) = None" and "n \<in> set ps" and "in_range p n"
  shows "Call_getTextContent n \<in> set (calls (snd (process_pages env p ps r)))"
  using assms
proof (induction ps arbitrary: r)
  case Nil
  then show ?case by simp
next
  case (Cons m ps)
  show ?case
  proof (cases "in_range p m")
    case False
    with Cons.prems have "n \<in> set ps" by auto
    with False Cons.IH [of r] Cons.prems show ?thesis
      by (simp add: in_range_guard)
  next
    case True
    obtain res r' where pp: "process_page env p m r = (res, r')"
      by (cases "process_page env p m r")
    with True Cons.prems(1) have res: "res = None"
      by (cases res) (simp_all add: in_range_guard)
    with pp True Cons.prems(1) have rest: "fst (process_pages env p ps r') = None"
      by (simp add: in_range_guard)
    from pp True res have eq: "process_pages env p (m # ps) r = process_pages env p ps r'"
      by (simp add: in_range_guard)
    show ?thesis
    proof (cases "n = m")
      case True
      from pp process_page_calls_mono [of r m env p] have "Call_getTextContent m \<in> set (calls r')"
        by simp
      with process_pages_calls_mono [of r' env p ps] True show ?thesis
        unfolding eq by blast
    next
      case False
      with Cons.prems(2) have "n \<in> set ps" by simp
      from Cons.IH [OF rest this Cons.prems(3)] show ?thesis
        unfolding eq .
    qed
  qed
qed

text \<open>In a run that returns, the text of every requested page in range was read.\<close>

lemma processed_pages_logged:
  assumes "getDocument env = Inr p" and "\<not> isl (fst (performOCR env ps ts))"
    and "n \<in> set ps" and "in_range p n"
  shows "Call_getTextContent n \<in> set (snd (snd (performOCR env ps ts)))"
proof -
  let ?r0 = "\<lparr>fullText = [], imageBasedPagesCount = 0, ocr_toasts = ts, calls = []\<rparr>"
  from assms(2) have "fst (process_pages env p ps ?r0) = None"
    by (simp add: performOCR_Inr [OF assms(1)] Let_def split: option.splits)
  from process_pages_logged [OF this assms(3) assms(4)] show ?thesis
    by (simp add: performOCR_calls [OF assms(1)])
qed

subsection \<open>The decision rule\<close>

text \<open>
  Claim C3. For every page that \<open>performOCR\<close> processes (its text content was
  requested) and whose native text is \<open>t\<close>: the fallback (the branch that calls
  \<open>extractImagesFromPage\<close> and hands each image to the recognition engine) is entered
  exactly when the trimmed length of \<open>t\<close> is below 50. At 50 or more the engine is
  never called for the page; below 50 it is called on the page's image whenever
  \<open>extractImagesFromPage\<close> returns one (it returns none when the canvas has no 2d
  context). The statement holds for runs that fail later as well.
\<close>

theorem fallback_iff_short_text:
  assumes "getDocument env = Inr p"
    and "native_text p n = Inr t"
    and "Call_getTextContent n \<in> set (snd (snd (performOCR env ps ts)))"
  shows "(Call_extractImages n \<in> set (snd (snd (performOCR env ps ts)))) = (length (trim t) < 50)
       \<and> (50 \<le> length (trim t) \<longrightarrow> (\<forall>u. Call_recognize n u \<notin> set (snd (snd (performOCR env ps ts)))))
       \<and> (length (trim t) < 50 \<longrightarrow>
            (\<forall>u us. extractImagesFromPage p n = Inr (u # us) \<longrightarrow>
               Call_recognize n u \<in> set (snd (snd (performOCR env ps ts)))))"
proof -
  let ?cs = "snd (snd (performOCR env ps ts))"
  have nf: "needs_fallback p n = (length (trim t) < 50)"
    using assms(2) by (simp add: needs_fallback_def)
  from performOCR_calls_ok [OF assms(1), of ps ts] have ok: "calls_ok p ?cs" .
  from ok have 1: "Call_extractImages n \<in> set ?cs \<Longrightarrow> needs_fallback p n"
    unfolding calls_ok_def by blast
  from ok assms(3) have 2: "needs_fallback p n \<Longrightarrow> Call_extractImages n \<in> set ?cs"
    unfolding calls_ok_def by blast
  from ok have 3: "\<And>u. Call_recognize n u \<in> set ?cs \<Longrightarrow> needs_fallback p n"
    unfolding calls_ok_def by blast
  from ok assms(3) have 4: "\<And>u us. needs_fallback p n \<Longrightarrow> extractImagesFromPage p n = Inr (u # us)
       \<Longrightarrow> Call_recognize n u \<in> set ?cs"
    unfolding calls_ok_def by blast
  have c1: "(Call_extractImages n \<in> set ?cs) = (length (trim t) < 50)"
    using 1 2 nf by blast
  have c2: "50 \<le> length (trim t) \<longrightarrow> (\<forall>u. Call_recognize n u \<notin> set ?cs)"
  proof (intro impI allI notI)
    fix u assume "50 \<le> length (trim t)" and "Call_recognize n u \<in> set ?cs"
    with 3 [of u] nf show False by simp
  qed
  have c3: "length (trim t) < 50 \<longrightarrow>
            (\<forall>u us. extractImagesFromPage p n = Inr (u # us) \<longrightarrow> Call_recognize n u \<in> set ?cs)"
    using 4 nf by blast
  from c1 c2 c3 show ?thesis by (intro conjI)
qed

theorem fallback_iff_short_text_witness:
  "Call_extractImages 2 \<in> set (snd (snd (performOCR example_env [1, 2] [])))
   \<and> Call_recognize 2 ''img2'' \<in> set (snd (snd (performOCR example_env [1, 2] [])))
   \<and> Call_extractImages 1 \<notin> set (snd (snd (performOCR example_env [1, 2] [])))
   \<and> Call_recognize 1 ''img1'' \<notin> set (snd (snd (performOCR example_env [1, 2] [])))"
proof -
  have d: "getDocument example_env = Inr example_pdf"
    by (simp add: example_env_def)
  have n1: "native_text example_pdf 1 = Inr ''The quick brown fox jumps over the lazy dog, twice over.''"
    by code_simp
  have n2: "native_text example_pdf 2 = Inr ''scan''"
    by code_simp
  have g1: "Call_getTextContent 1 \<in> set (snd (snd (performOCR example_env [1, 2] [])))"
    by code_simp
  have g2: "Call_getTextContent 2 \<in> set (snd (snd (performOCR example_env [1, 2] [])))"
    by code_simp
  have l1: "50 \<le> length (trim ''The quick brown fox jumps over the lazy dog, twice over.'')"
    by code_simp
  have l2: "length (trim ''scan'') < 50"
    by code_simp
  have x2: "extractImagesFromPage example_pdf 2 = Inr [''img2'']"
    by code_simp
  from l1 have l1': "\<not> length (trim ''The quick brown fox jumps over the lazy dog, twice over.'') < 50"
    by linarith
  from fallback_iff_short_text [OF d n1 g1] l1 l1'
  have a: "Call_extractImages 1 \<notin> set (snd (snd (performOCR example_env [1, 2] [])))"
    and b: "Call_recognize 1 ''img1'' \<notin> set (snd (snd (performOCR example_env [1, 2] [])))"
    by blast+
  from fallback_iff_short_text [OF d n2 g2] l2 x2
  have c: "Call_extractImages 2 \<in> set (snd (snd (performOCR example_env [1, 2] [])))"
    and e: "Call_recognize 2 ''img2'' \<in> set (snd (snd (performOCR example_env [1, 2] [])))"
    by blast+
  from a b c e show ?thesis by (intro conjI)
qed

subsection \<open>The text returned\<close>

text \<open>
  Claim C4. For every list of page numbers in range whose extractions all succeed,
  \<open>performOCR\<close> returns, and the text is the concatenation, in the order of the
  list, of one section per page: the header \<open>Page n:\<close>, a line feed, the page's
  extracted text trimmed, and two line feeds (a blank line). For the empty list the
  text is \<open>No text found in the PDF.\<close>
\<close>

theorem ocr_sections_in_order:
  assumes "getDocument env = Inr p"
    and "\<forall>n\<in>set ps. in_range p n"
    and "\<forall>n\<in>set ps. \<not> isl (page_text env p n)"
  shows "fst (performOCR env ps ts) =
           Inr (if ps = [] then ''No text found in the PDF.''
                else concat (map (\<lambda>n. ''Page '' @ show_int n @ '':'' @ [newline]
                                        @ trim (projr (page_text env p n)) @ [newline, newline]) ps))"
proof -
  let ?r0 = "\<lparr>fullText = [], imageBasedPagesCount = 0, ocr_toasts = ts, calls = []\<rparr>"
  from assms(3) have ok: "\<forall>n\<in>set ps. in_range p n \<longrightarrow> \<not> isl (page_text env p n)" by blast
  from assms(2) have all: "filter (in_range p) ps = ps" by simp
  from ok process_pages_result [of env p ps ?r0]
  have none: "fst (process_pages env p ps ?r0) = None" by blast
  from process_pages_fullText [OF ok, of ?r0] all
  have ft: "fullText (snd (process_pages env p ps ?r0)) =
              concat (map (\<lambda>n. page_section n (projr (page_text env p n))) ps)"
    by simp
  have "(concat (map (\<lambda>n. page_section n (projr (page_text env p n))) ps) = []) = (ps = [])"
    by (cases ps) (simp_all add: page_section_def)
  with none ft show ?thesis
    by (simp add: performOCR_Inr [OF assms(1)] Let_def page_section_def)
qed

theorem ocr_sections_in_order_witness:
  "fst (performOCR example_env [2, 1] []) =
     Inr (''Page 2:'' @ [newline] @ ''scan recognised words'' @ [newline, newline]
          @ ''Page 1:'' @ [newline] @ ''The quick brown fox jumps over the lazy dog, twice over.''
          @ [newline, newline])"
proof -
  have 1: "getDocument example_env = Inr example_pdf"
    by (simp add: example_env_def)
  have 3: "\<forall>n\<in>set [2, 1]. in_range example_pdf n"
    by code_simp
  have 4: "\<forall>n\<in>set [2, 1]. \<not> isl (page_text example_env example_pdf n)"
    by code_simp
  have 5: "concat (map (\<lambda>n. ''Page '' @ show_int n @ '':'' @ [newline]
                    @ trim (projr (page_text example_env example_pdf n)) @ [newline, newline]) [2, 1])
        = ''Page 2:'' @ [newline] @ ''scan recognised words'' @ [newline, newline]
          @ ''Page 1:'' @ [newline] @ ''The quick brown fox jumps over the lazy dog, twice over.''
          @ [newline, newline]"
    by code_simp
  from ocr_sections_in_order [OF 1 3 4, of "[]"] show ?thesis
    unfolding 5 by simp
qed

subsection \<open>Failure of a page\<close>

text \<open>
  Claim C2, as amended. If the extraction of a page of the split range throws,
  \<open>performOCR\<close> rethrows for the whole batch, the stored text and the chat flag are
  left as they were (nothing of the pages before the failing one is kept), and two
  error toasts are added: one by \<open>performOCR\<close>, one by \<open>handlePerformOCR\<close>.
\<close>

theorem ocr_failure_aborts_batch:
  assumes "isSplit v"
    and "getDocument env = Inr p"
    and "\<exists>n\<in>set (splitPdfPages v). in_range p n \<and> isl (page_text env p n)"
  shows "isl (fst (performOCR env (splitPdfPages v) ts))
       \<and> ocrText (handlePerformOCR env v) = ocrText v
       \<and> showChat (handlePerformOCR env v) = showChat v
       \<and> filter is_error (toasts (handlePerformOCR env v)) =
           filter is_error (toasts v) @
             [Toast_error ''Failed to extract text from PDF'',
              Toast_error ''Failed to extract text from PDF. Please try again.'']"
proof -
  from performOCR_failure [OF assms(2) assms(3), of ts]
  have a: "isl (fst (performOCR env (splitPdfPages v) ts))" by auto
  let ?ts = "toasts v @ [Toast_loading (Id_auto (length (toasts v))) ''Extracting text from PDF pages...'']"
  from performOCR_failure [OF assms(2) assms(3), of ?ts]
  obtain e ts' cs where r: "performOCR env (splitPdfPages v) ?ts = (Inl e, ts', cs)"
    and f: "filter is_error ts' = filter is_error ?ts @ [Toast_error ''Failed to extract text from PDF'']"
    by blast
  from assms(3) have ne: "splitPdfPages v \<noteq> []" by auto
  have h: "handlePerformOCR env v =
        v\<lparr>isProcessingOCR := True,
          toasts := ts' @ [Toast_dismiss (Id_auto (length (toasts v))),
                           Toast_error ''Failed to extract text from PDF. Please try again.''],
          isProcessingOCR := False\<rparr>"
    using assms(1) ne r by (simp add: handlePerformOCR_def toast_def Let_def)
  show ?thesis
    using a f by (simp add: h is_error_def)
qed

theorem ocr_failure_aborts_batch_witness:
  "isl (fst (performOCR example_env [1, 2, 3] []))
   \<and> ocrText (handlePerformOCR example_env example_viewer) = ''earlier text''
   \<and> showChat (handlePerformOCR example_env example_viewer) = False
   \<and> filter is_error (toasts (handlePerformOCR example_env example_viewer)) =
        [Toast_error ''Failed to extract text from PDF'',
         Toast_error ''Failed to extract text from PDF. Please try again.'']"
proof -
  have 1: "isSplit example_viewer"
    by (simp add: example_viewer_def)
  have 2: "getDocument example_env = Inr example_pdf"
    by (simp add: example_env_def)
  have 3: "\<exists>n\<in>set (splitPdfPages example_viewer). in_range example_pdf n \<and> isl (page_text example_env example_pdf n)"
    by code_simp
  from ocr_failure_aborts_batch [OF 1 2 3, of "[]"] show ?thesis
    by (simp add: example_viewer_def)
qed

text \<open>
  The claim as stated, with exactly one failure shown, does not hold: on the example
  document split to pages 1 to 3, page 3 fails and two error toasts are shown.
\<close>

theorem ocr_two_error_toasts:
  "isl (page_text example_env example_pdf 3)
   \<and> filter is_error (toasts (handlePerformOCR example_env example_viewer)) =
        [Toast_error ''Failed to extract text from PDF'',
         Toast_error ''Failed to extract text from PDF. Please try again.'']
   \<and> length (filter is_error (toasts (handlePerformOCR example_env example_viewer))) \<noteq> 1"
  by code_simp

subsection \<open>Pages out of range\<close>

text \<open>
  Claim C10, as amended. Page numbers outside \<open>[1, numPages]\<close> are skipped without
  an error: the result, the toasts and the calls are those of the list without them,
  so no section is written for them and the other pages are processed as before; and
  if every requested page is skipped, the text is \<open>No text found in the PDF.\<close>, with
  no toast and no call.
\<close>

theorem ocr_skips_out_of_range:
  assumes "getDocument env = Inr p"
  shows "performOCR env ps ts = performOCR env (filter (in_range p) ps) ts
       \<and> ((\<forall>n\<in>set ps. \<not> in_range p n) \<longrightarrow>
            performOCR env ps ts = (Inr ''No text found in the PDF.'', ts, []))"
proof -
  have 1: "performOCR env ps ts = performOCR env (filter (in_range p) ps) ts"
    unfolding performOCR_Inr [OF assms]
    using process_pages_skip [of env p ps] by simp
  have 2: "performOCR env ps ts = (Inr ''No text found in the PDF.'', ts, [])"
    if "\<forall>n\<in>set ps. \<not> in_range p n"
  proof -
    from that have "filter (in_range p) ps = []" by (simp add: filter_empty_conv)
    with 1 show ?thesis by (simp add: performOCR_Inr [OF assms] Let_def)
  qed
  from 1 2 show ?thesis by blast
qed

theorem ocr_skips_out_of_range_witness:
  "performOCR example_env [0, 2, 7] [] = performOCR example_env [2] []
   \<and> performOCR example_env [0, 7] [] = (Inr ''No text found in the PDF.'', [], [])"
proof -
  have 1: "getDocument example_env = Inr example_pdf"
    by (simp add: example_env_def)
  have 2: "filter (in_range example_pdf) [0, 2, 7] = [2]"
    by code_simp
  have 3: "\<forall>n\<in>set [0, 7]. \<not> in_range example_pdf n"
    by code_simp
  from ocr_skips_out_of_range [OF 1, of "[0, 2, 7]" "[]"]
  have a: "performOCR example_env [0, 2, 7] [] = performOCR example_env [2] []"
    unfolding 2 by blast
  from ocr_skips_out_of_range [OF 1, of "[0, 7]" "[]"] 3
  have b: "performOCR example_env [0, 7] [] = (Inr ''No text found in the PDF.'', [], [])"
    by blast
  from a b show ?thesis by (intro conjI)
qed

text \<open>
  The claim as stated also promises that text when all pages yield empty text. That
  does not hold: page 4 of the example yields only white space, and the text returned
  is its header followed by three line feeds.
\<close>

theorem ocr_empty_page_not_sentinel:
  "page_text example_env example_pdf 4 = Inr '' ''
   \<and> trim '' '' = []
   \<and> fst (performOCR example_env [4] []) = Inr (''Page 4:'' @ [newline, newline, newline])
   \<and> fst (performOCR example_env [4] []) \<noteq> Inr ''No text found in the PDF.''"
  by code_simp

subsection \<open>Jump to page\<close>

text \<open>
  A rejected request: the input does not parse, or the number lies outside
  \<open>[1, totalPages]\<close>. An error toast is added and nothing else changes.
\<close>

lemma jump_rejected:
  assumes "parseInt (jumpToPage n) = None
           \<or> (\<exists>p. parseInt (jumpToPage n) = Some p \<and> (p < 1 \<or> p > totalPages v))"
  shows "navigator_handleJumpToPage (n, v) =
           Some (n, toast (Toast_error (''Please enter a valid page number between 1 and ''
                                        @ show_int (totalPages v))) v)"
  using assms by (auto simp add: navigator_handleJumpToPage_def Let_def)

lemma jump_rejected_scroll:
  assumes "parseInt (jumpToPage n) = None
           \<or> (\<exists>p. parseInt (jumpToPage n) = Some p \<and> (p < 1 \<or> p > totalPages v))"
  shows "\<exists>v'. navigator_handleJumpToPage (n, v) = Some (n, v')
           \<and> scrollTop v' = scrollTop v \<and> currentPage v' = currentPage v
           \<and> toasts v' = toasts v @ [Toast_error (''Please enter a valid page number between 1 and ''
                                        @ show_int (totalPages v))]"
  unfolding jump_rejected [OF assms] by (simp add: toast_def)

text \<open>
  An accepted request. Without a split the offset is \<open>(p - 1) * 842 * scale\<close>. After
  a split to \<open>[s..e]\<close> the offset is computed from the page number \<open>s + p - 1\<close>, not
  from the index \<open>p - 1\<close> at which the virtualizer lays the page out.
\<close>

lemma jump_unsplit:
  assumes "\<not> isSplit v" and "parseInt (jumpToPage n) = Some p" and "1 \<le> p" and "p \<le> numPages v"
  shows "\<exists>n' v'. navigator_handleJumpToPage (n, v) = Some (n', v')
           \<and> scrollTop v' = (real_of_int p - 1) * (842 * scale v) \<and> currentPage v' = p"
  using assms
  by (simp add: navigator_handleJumpToPage_def handleJumpToPage_def totalPages_def toast_def Let_def)

lemma jump_split:
  assumes "isSplit v" and "splitPdfPages v = [s..e]"
    and "parseInt (jumpToPage n) = Some p" and "1 \<le> p" and "p \<le> int (length (splitPdfPages v))"
  shows "\<exists>n' v'. navigator_handleJumpToPage (n, v) = Some (n', v')
           \<and> scrollTop v' = (real_of_int (s + p - 1) - 1) * (842 * scale v)
           \<and> currentPage v' = s + p - 1"
proof -
  from assms(2,4,5) have "[s..e] ! nat (p - 1) = s + int (nat (p - 1))"
    by (intro nth_upto) (simp split: if_splits)
  with assms(4) have nth: "splitPdfPages v ! nat (p - 1) = s + p - 1"
    by (simp add: assms(2))
  with assms(1,3,4,5) show ?thesis
  by (simp add: navigator_handleJumpToPage_def handleJumpToPage_def totalPages_def toast_def Let_def)
qed

text \<open>
  Claim C1: a request outside \<open>[1, totalPages]\<close> gives an error and no scroll change,
  and a valid request for \<open>p\<close> scrolls to \<open>(p - 1) * pageHeight * scale\<close>, the index
  of \<open>p\<close> in the active range times the estimated page height. The second part fails
  on the code in split mode: on a ten-page document split to pages 3 to 5 at scale 1,
  whose active range has 3 pages, the valid request for page 1 scrolls to 1684 where
  the claim has \<open>(1 - 1) * 842 * 1 = 0\<close>.
\<close>

theorem jump_in_split_overshoots:
  "pages split_viewer = [3, 4, 5]
   \<and> totalPages split_viewer = 3
   \<and> scale split_viewer = 1
   \<and> parseInt ''1'' = Some 1
   \<and> map_option (\<lambda>nv. scrollTop (snd nv))
         (navigator_handleJumpToPage (\<lparr>isDialogOpen = True, jumpToPage = ''1''\<rparr>, split_viewer))
       = Some 1684
   \<and> map_option (\<lambda>nv. scrollTop (snd nv))
         (navigator_handleJumpToPage (\<lparr>isDialogOpen = True, jumpToPage = ''1''\<rparr>, split_viewer))
       \<noteq> Some ((1 - 1) * (842 * scale split_viewer))"
  by code_simp

subsection \<open>The recent-files cache\<close>

lemma cache_upd: "cache (ls(''pdfHistory'' \<mapsto> Json (JArr items))) = items"
  by (simp add: cache_def)

lemma cache_empty: "cache Map.empty = []"
  by (simp add: cache_def)

lemma cache_ok_items:
  assumes "length items \<le> 3" and "distinct (map (\<lambda>item. member item ''name'') items)"
    and "\<forall>item\<in>set items. is_item item"
  shows "cache_ok (ls(''pdfHistory'' \<mapsto> Json (JArr items)))"
  using assms by (simp add: cache_ok_def entry_names_def cache_upd)

lemma cache_ok_empty: "cache_ok Map.empty"
  by (simp add: cache_ok_def entry_names_def cache_empty)

lemma member_historyItem: "member (historyItem_json n d t) ''name'' = Some (JStr n)"
  by (simp add: member_def historyItem_json_def)

lemma is_item_historyItem: "is_item (historyItem_json n d t)"
  by (auto simp add: is_item_def)

lemma distinct_insert_filter:
  assumes "distinct (map f xs)"
  shows "distinct (map f (take k (x # filter (\<lambda>y. f y \<noteq> f x) xs)))"
proof -
  have "distinct (map f (filter (\<lambda>y. f y \<noteq> f x) xs))"
    using assms by (rule distinct_map_filter)
  then have "distinct (map f (x # filter (\<lambda>y. f y \<noteq> f x) xs))"
    by auto
  then have "distinct (take k (map f (x # filter (\<lambda>y. f y \<noteq> f x) xs)))"
    by (rule distinct_take)
  then show ?thesis by (simp only: take_map)
qed

lemma history_filter_cache:
  assumes "history_filter n (JArr items) = Some others"
  shows "others = filter (\<lambda>item. member item ''name'' \<noteq> Some (JStr n)) items"
  using assms by (simp add: history_filter_def split: if_splits)

lemma update_history_cache:
  assumes "update_history accepts n item ls = Some ls'"
  shows "ls' = ls(''pdfHistory'' \<mapsto> Json (JArr (take 3 (item #
            filter (\<lambda>i. member i ''name'' \<noteq> Some (JStr n)) (cache ls)))))"
  using assms
  by (auto simp add: update_history_def cache_def Let_def history_filter_def
      split: option.splits stored.splits json.splits if_splits)

lemma update_history_ok:
  assumes "update_history accepts n (historyItem_json n d t) ls = Some ls'" and "cache_ok ls"
  shows "cache_ok ls'"
proof -
  let ?f = "\<lambda>item. member item ''name''"
  let ?x = "historyItem_json n d t"
  have fx: "?f ?x = Some (JStr n)" by (rule member_historyItem)
  from assms(2) have d: "distinct (map ?f (cache ls))" and i: "\<forall>item\<in>set (cache ls). is_item item"
    by (simp_all add: cache_ok_def entry_names_def)
  from distinct_insert_filter [OF d, of 3 ?x]
  have 1: "distinct (map ?f (take 3 (?x # filter (\<lambda>y. ?f y \<noteq> Some (JStr n)) (cache ls))))"
    by (simp only: fx)
  have 2: "\<forall>item\<in>set (take 3 (?x # filter (\<lambda>y. ?f y \<noteq> Some (JStr n)) (cache ls))). is_item item"
  proof
    fix item assume "item \<in> set (take 3 (?x # filter (\<lambda>y. ?f y \<noteq> Some (JStr n)) (cache ls)))"
    then have "item \<in> set (?x # filter (\<lambda>y. ?f y \<noteq> Some (JStr n)) (cache ls))"
      by (rule in_set_takeD)
    with i show "is_item item" by (auto simp add: is_item_historyItem)
  qed
  have 3: "length (take 3 (?x # filter (\<lambda>y. ?f y \<noteq> Some (JStr n)) (cache ls))) \<le> 3"
    by simp
  show ?thesis
    unfolding update_history_cache [OF assms(1)]
    using 3 1 2 by (rule cache_ok_items)
qed

lemma handleFileSelect_ok:
  assumes "cache_ok (localStorage s)"
  shows "cache_ok (localStorage (handleFileSelect now accepts f s))"
proof (cases "file_base64 f")
  case None
  with assms show ?thesis by (simp add: handleFileSelect_def)
next
  case (Some d)
  show ?thesis
  proof (cases "real (length d) * 0.75 > MAX_STORAGE_SIZE")
    case True
    with Some assms show ?thesis by (simp add: handleFileSelect_def)
  next
    case False
    show ?thesis
    proof (cases "update_history accepts (file_name f) (historyItem_json (file_name f) d now) (localStorage s)")
      case (Some ls')
      from update_history_ok [OF Some assms] \<open>file_base64 f = Some d\<close> False Some
      show ?thesis by (simp add: handleFileSelect_def)
    next
      case None
      have "cache_ok (Map.empty(''pdfHistory'' \<mapsto> Json (JArr [historyItem_json (file_name f) d now])))"
        by (rule cache_ok_items) (simp_all add: is_item_historyItem)
      with \<open>file_base64 f = Some d\<close> False None show ?thesis
        by (simp add: handleFileSelect_def Let_def cache_ok_empty)
    qed
  qed
qed

lemma getHistory_cache:
  "fst (getHistory ls) = cache ls"
  by (simp add: getHistory_def cache_def split: option.splits stored.splits json.splits)

lemma getHistory_ok:
  assumes "cache_ok ls"
  shows "cache_ok (snd (getHistory ls))"
proof -
  have "snd (getHistory ls) = ls \<or> cache (snd (getHistory ls)) = []"
    by (simp add: getHistory_def cache_def split: option.splits stored.splits json.splits)
  with assms show ?thesis
    by (auto simp add: cache_ok_def entry_names_def)
qed

lemma handleFileOpen_ok:
  assumes "cache_ok (localStorage s)" and "handleFileOpen atob now accepts item s = Some s'"
  shows "cache_ok (localStorage s')"
proof (cases "atob (item_data item)")
  case (Some b)
  with assms(2) handleFileSelect_ok [OF assms(1)] show ?thesis
    by (auto simp add: handleFileOpen_def)
next
  case None
  let ?f = "\<lambda>i. member i ''name''"
  let ?items = "filter (\<lambda>i. ?f i \<noteq> Some (JStr (item_name item))) (cache (localStorage s))"
  from None assms(2)
  have s': "localStorage s' = (snd (getHistory (localStorage s)))(''pdfHistory'' \<mapsto> Json (JArr ?items))"
    by (auto simp add: handleFileOpen_def Let_def getHistory_cache split: if_splits)
  from assms(1) have l: "length (cache (localStorage s)) \<le> 3"
    and d: "distinct (map ?f (cache (localStorage s)))"
    and i: "\<forall>x\<in>set (cache (localStorage s)). is_item x"
    by (simp_all add: cache_ok_def entry_names_def)
  have 1: "length ?items \<le> 3"
    using l length_filter_le [of "\<lambda>i. ?f i \<noteq> Some (JStr (item_name item))" "cache (localStorage s)"]
    by linarith
  have 2: "distinct (map ?f ?items)"
    using d by (rule distinct_map_filter)
  have 3: "\<forall>x\<in>set ?items. is_item x"
    using i by simp
  show ?thesis
    unfolding s' using 1 2 3 by (rule cache_ok_items)
qed

lemma reachable_cache_ok: "reachable s \<Longrightarrow> cache_ok (localStorage s)"
proof (induction rule: reachable.induct)
  case fresh
  show ?case by (simp add: cache_ok_empty)
next
  case (select s now accepts f)
  then show ?case by (simp add: handleFileSelect_ok)
next
  case (read s)
  then show ?case by (simp add: getHistory_ok)
next
  case (opened s atob now accepts item s')
  then show ?case using handleFileOpen_ok by blast
qed

lemma handleFileSelect_cache:
  assumes "file_base64 f = Some d" and "\<not> real (length d) * 0.75 > MAX_STORAGE_SIZE"
  shows "cache (localStorage (handleFileSelect now accepts f s)) =
           take 3 (historyItem_json (file_name f) d now #
                   filter (\<lambda>i. member i ''name'' \<noteq> Some (JStr (file_name f))) (cache (localStorage s)))
         \<or> cache (localStorage (handleFileSelect now accepts f s)) = [historyItem_json (file_name f) d now]
         \<or> cache (localStorage (handleFileSelect now accepts f s)) = []"
proof (cases "update_history accepts (file_name f) (historyItem_json (file_name f) d now) (localStorage s)")
  case (Some ls')
  from update_history_cache [OF Some] assms Some show ?thesis
    by (simp add: handleFileSelect_def cache_upd)
next
  case None
  with assms show ?thesis
    by (simp add: handleFileSelect_def Let_def cache_upd cache_empty)
qed

lemma handleFileSelect_unchanged:
  assumes "file_base64 f = None \<or> (\<exists>d. file_base64 f = Some d \<and> real (length d) * 0.75 > MAX_STORAGE_SIZE)"
  shows "localStorage (handleFileSelect now accepts f s) = localStorage s"
  using assms by (auto simp add: handleFileSelect_def)

lemma handleFileSelect_length:
  assumes "file_base64 f = Some d" and "\<not> real (length d) * 0.75 > MAX_STORAGE_SIZE"
  shows "length (cache (localStorage (handleFileSelect now accepts f s))) \<le> 3"
  using handleFileSelect_cache [OF assms, of now accepts s] by auto

lemma handleFileSelect_distinct:
  assumes "distinct (entry_names (localStorage s))"
  shows "distinct (entry_names (localStorage (handleFileSelect now accepts f s)))"
proof (cases "file_base64 f")
  case None
  with assms handleFileSelect_unchanged [of f now accepts s] show ?thesis by simp
next
  case (Some d)
  show ?thesis
  proof (cases "real (length d) * 0.75 > MAX_STORAGE_SIZE")
    case True
    with Some assms handleFileSelect_unchanged [of f now accepts s] show ?thesis by simp
  next
    case False
    let ?f = "\<lambda>item. member item ''name''"
    let ?x = "historyItem_json (file_name f) d now"
    from assms have d: "distinct (map ?f (cache (localStorage s)))"
      by (simp add: entry_names_def)
    from distinct_insert_filter [OF d, of 3 ?x]
    have "distinct (map ?f (take 3 (?x # filter (\<lambda>y. ?f y \<noteq> Some (JStr (file_name f))) (cache (localStorage s)))))"
      by (simp only: member_historyItem)
    with handleFileSelect_cache [OF Some False, of now accepts s] show ?thesis
      unfolding entry_names_def by auto
  qed
qed

text \<open>
  Claim C5. In every state the application reaches from a fresh storage, the cache
  holds at most 3 entries, no two of them with the same name, each of the shape
  \<open>handleFileSelect\<close> writes. Whatever the storage held before, the cache holds at
  most 3 entries after an insert, and an insert into a cache whose names are distinct
  leaves them distinct. Inserting a file whose estimated size exceeds 4 MiB leaves the
  storage unchanged.
\<close>

theorem cache_bounded_distinct:
  "(reachable s \<longrightarrow>
      length (cache (localStorage s)) \<le> 3
      \<and> distinct (entry_names (localStorage s))
      \<and> (\<forall>item\<in>set (cache (localStorage s)). \<exists>n d t. item = historyItem_json n d t))
   \<and> (file_base64 f = Some d \<and> \<not> real (length d) * 0.75 > MAX_STORAGE_SIZE \<longrightarrow>
        length (cache (localStorage (handleFileSelect now accepts f s))) \<le> 3)
   \<and> (distinct (entry_names (localStorage s)) \<longrightarrow>
        distinct (entry_names (localStorage (handleFileSelect now accepts f s))))
   \<and> (file_base64 f = Some d \<and> real (length d) * 0.75 > MAX_STORAGE_SIZE \<longrightarrow>
        localStorage (handleFileSelect now accepts f s) = localStorage s)"
proof (intro conjI impI)
  assume "reachable s"
  then have "cache_ok (localStorage s)" by (rule reachable_cache_ok)
  then show "length (cache (localStorage s)) \<le> 3"
    and "distinct (entry_names (localStorage s))"
    and "\<forall>item\<in>set (cache (localStorage s)). \<exists>n d t. item = historyItem_json n d t"
    by (simp_all add: cache_ok_def is_item_def)
next
  assume "file_base64 f = Some d \<and> \<not> real (length d) * 0.75 > MAX_STORAGE_SIZE"
  then show "length (cache (localStorage (handleFileSelect now accepts f s))) \<le> 3"
    using handleFileSelect_length by blast
next
  assume "distinct (entry_names (localStorage s))"
  then show "distinct (entry_names (localStorage (handleFileSelect now accepts f s)))"
    by (rule handleFileSelect_distinct)
next
  assume "file_base64 f = Some d \<and> real (length d) * 0.75 > MAX_STORAGE_SIZE"
  then show "localStorage (handleFileSelect now accepts f s) = localStorage s"
    using handleFileSelect_unchanged by blast
qed

lemma example_index_cache:
  "cache (localStorage example_index) =
     [historyItem_json ''d.pdf'' ''JVBERi0xLjQK'' 5,
      historyItem_json ''a.pdf'' ''JVBERi0xLjQK'' 4,
      historyItem_json ''c.pdf'' ''JVBERi0xLjQK'' 3]"
  by code_simp

lemma example_index_reachable: "reachable example_index"
  unfolding example_index_def fresh_index_def by (intro reachable.intros)

theorem cache_bounded_distinct_witness:
  "length (cache (localStorage example_index)) \<le> 3
   \<and> distinct (entry_names (localStorage example_index))
   \<and> length (cache (localStorage (handleFileSelect 6 (\<lambda>j. True) (example_file ''e.pdf'') example_index))) \<le> 3
   \<and> distinct (entry_names (localStorage (handleFileSelect 6 (\<lambda>j. True) (example_file ''e.pdf'') example_index)))
   \<and> localStorage (handleFileSelect 6 (\<lambda>j. True) large_file example_index) = localStorage example_index"
proof -
  have r: "reachable example_index"
    by (rule example_index_reachable)
  have small: "file_base64 (example_file ''e.pdf'') = Some ''JVBERi0xLjQK''
               \<and> \<not> real (length ''JVBERi0xLjQK'') * 0.75 > MAX_STORAGE_SIZE"
    by (simp add: example_file_def MAX_STORAGE_SIZE_def)
  have large: "file_base64 large_file = Some (replicate 5592406 (CHR ''A''))
               \<and> real (length (replicate 5592406 (CHR ''A''))) * 0.75 > MAX_STORAGE_SIZE"
    by (simp add: large_file_def MAX_STORAGE_SIZE_def)
  note t1 = cache_bounded_distinct [of example_index "example_file ''e.pdf''" "''JVBERi0xLjQK''" 6 "\<lambda>j. True"]
  note t2 = cache_bounded_distinct [of example_index large_file "replicate 5592406 (CHR ''A'')" 6 "\<lambda>j. True"]
  from t1 r have a: "length (cache (localStorage example_index)) \<le> 3"
    and b: "distinct (entry_names (localStorage example_index))"
    by blast+
  from t1 small have c: "length (cache (localStorage (handleFileSelect 6 (\<lambda>j. True) (example_file ''e.pdf'') example_index))) \<le> 3"
    by blast
  from t1 b have d: "distinct (entry_names (localStorage (handleFileSelect 6 (\<lambda>j. True) (example_file ''e.pdf'') example_index)))"
    by blast
  from t2 large have e: "localStorage (handleFileSelect 6 (\<lambda>j. True) large_file example_index) = localStorage example_index"
    by blast
  from a b c d e show ?thesis by (intro conjI)
qed

subsection \<open>Reading a corrupt cache\<close>

lemma getHistory_malformed:
  assumes "ls ''pdfHistory'' = Some Malformed"
  shows "getHistory ls = ([], ls(''pdfHistory'' := None))"
  using assms by (simp add: getHistory_def)

lemma getHistory_non_array:
  assumes "ls ''pdfHistory'' = Some (Json j)" and "\<forall>items. j \<noteq> JArr items"
  shows "getHistory ls = ([], ls)"
  using assms by (cases j) (simp_all add: getHistory_def)

lemma getHistory_empty_string:
  assumes "ls ''pdfHistory'' = Some Empty_string"
  shows "getHistory ls = ([], ls)"
  using assms by (simp add: getHistory_def)

text \<open>
  Claim C8: for a stored value that fails to parse, or parses to something other than
  an array, reading the cache returns the empty list and removes the key. The code
  removes the key in the first case only (\<open>getHistory_malformed\<close>). For the stored
  text \<open>{}\<close>, \<open>getHistory\<close> returns the empty list and leaves the key in place.
\<close>

theorem getHistory_keeps_non_array:
  "fst (getHistory stale_storage) = []
   \<and> snd (getHistory stale_storage) ''pdfHistory'' = Some (Json (JObj []))"
  by (simp add: getHistory_def stale_storage_def)

subsection \<open>A failed chat request\<close>

lemma categorize_not_thinking:
  "categorize m @ '' Please try again or rephrase your question.'' \<noteq> ''Thinking...''"
proof
  assume "categorize m @ '' Please try again or rephrase your question.'' = ''Thinking...''"
  then have "length (categorize m @ '' Please try again or rephrase your question.'') = length ''Thinking...''"
    by simp
  then show False by simp
qed

lemma thinking_is_thinking: "\<not> not_thinking \<lparr>role = Assistant, content = ''Thinking...''\<rparr>"
  by (simp add: not_thinking_def)

lemma on_error_messages:
  "messages (on_error i m c) =
     filter not_thinking (messages c) @
       [\<lparr>role = Assistant, content = categorize m @ '' Please try again or rephrase your question.''\<rparr>]"
  by (simp add: on_error_def)

lemma handleSubmit_not_ok:
  assumes "trim (input c) \<noteq> []" and "\<not> isProcessing c" and "key \<noteq> []" and "\<not> response_ok r"
  shows "messages (handleSubmit eng key (Resolved r) c) =
           filter not_thinking (messages c @ [\<lparr>role = User, content = trim (input c)\<rparr>]) @
             [\<lparr>role = Assistant,
               content = categorize (error_message_of r) @ '' Please try again or rephrase your question.''\<rparr>]"
  using assms
  by (simp add: handleSubmit_def Let_def on_error_messages thinking_is_thinking)

lemma failed_request_transcript:
  assumes "trim (input c) \<noteq> []" and "\<not> isProcessing c" and "key \<noteq> []" and "\<not> response_ok r"
  shows "(\<forall>m\<in>set (messages (handleSubmit eng key (Resolved r) c)). content m \<noteq> ''Thinking...'')
       \<and> role (last (messages (handleSubmit eng key (Resolved r) c))) = Assistant
       \<and> content (last (messages (handleSubmit eng key (Resolved r) c))) =
           categorize (error_message_of r) @ '' Please try again or rephrase your question.''"
  unfolding handleSubmit_not_ok [OF assms]
  using categorize_not_thinking [of "error_message_of r"]
  by (auto simp add: not_thinking_def)

lemma categorize_rate_limit:
  assumes "str_includes m ''429''" and "\<not> str_includes m ''Failed to fetch''"
    and "\<not> str_includes m ''NetworkError''" and "\<not> str_includes m ''401''"
  shows "categorize m = ''Rate limit exceeded. Please wait a moment and try again.''"
  using assms by (simp add: categorize_def)

lemma rate_limit_plain_body:
  "content (last (messages (handleSubmit example_engine ''sk-or-v1'' rate_limited_plain example_chat))) =
     ''Rate limit exceeded. Please wait a moment and try again. Please try again or rephrase your question.''"
  by code_simp

text \<open>
  Claim C9: after a request that fails with status 429, the placeholder is removed and
  the last message is an assistant turn with the rate-limit message. The code picks
  the message by what the error's text includes, and for a JSON body that text is the
  body's own message, without the status. For the question of the example and the
  response with the JSON body, the placeholder is removed and the last message is an
  assistant turn, but with the generic text.
\<close>

theorem rate_limit_reported_as_generic:
  "messages (handleSubmit example_engine ''sk-or-v1'' rate_limited example_chat) =
     [greeting,
      \<lparr>role = User, content = ''What is a fox?''\<rparr>,
      \<lparr>role = Assistant,
       content = ''Error: Provider returned error Please try again or rephrase your question.''\<rparr>]
   \<and> \<not> str_includes
         (content (last (messages (handleSubmit example_engine ''sk-or-v1'' rate_limited example_chat))))
         ''Rate limit exceeded''"
  by code_simp

end
